theory Spec2Isabelle
  imports Complex_Main "HOL-Library.AList" "HOL-Library.Product_Lexorder"
begin

section \<open>Edge tables and \<open>BasePeople.remove_duplicates\<close>\<close>

text \<open>
  \<open>remove_duplicates(df)\<close> works on a pandas data frame with the integer columns
  \<open>p1\<close> and \<open>p2\<close> and any further columns (\<open>beta\<close>, \<open>layer\<close>, ...). A data frame is
  the list of its rows, in index order; a row carries its two endpoints and the values of
  its other columns in \<open>other\<close>.
\<close>

record 'a edge =
  p1 :: int
  p2 :: int
  other :: 'a

type_synonym 'a dataframe = "'a edge list"

text \<open>
  \<open>p1 = df[['p1','p2']].values.min(1); p2 = df[['p1','p2']].values.max(1)\<close>,
  then both columns are assigned back.
\<close>

definition reassign :: "'a edge \<Rightarrow> 'a edge" where
  "reassign r = r\<lparr>p1 := min (p1 r) (p2 r), p2 := max (p1 r) (p2 r)\<rparr>"

definition endpoints :: "'a edge \<Rightarrow> int \<times> int" where
  "endpoints r = (p1 r, p2 r)"

text \<open>
  \<open>df.sort_values(['p1', 'p2'])\<close>: rows in lexicographic order of \<open>(p1, p2)\<close>; rows
  with equal keys keep their relative order.
\<close>

definition sort_values :: "'a dataframe \<Rightarrow> 'a dataframe" where
  "sort_values df = sort_key endpoints df"

text \<open>
  \<open>df.drop_duplicates(['p1', 'p2'])\<close>: of the rows with the same \<open>(p1, p2)\<close> the
  first one is kept (pandas' default \<open>keep='first'\<close>).
\<close>

fun drop_duplicates :: "'a dataframe \<Rightarrow> 'a dataframe" where
  "drop_duplicates [] = []"
| "drop_duplicates (r # rs) =
     r # drop_duplicates (filter (\<lambda>s. endpoints s \<noteq> endpoints r) rs)"

definition remove_duplicates :: "'a dataframe \<Rightarrow> 'a dataframe" where
  "remove_duplicates df =
     filter (\<lambda>r. p1 r \<noteq> p2 r) (drop_duplicates (sort_values (map reassign df)))"

text \<open>The endpoints of a row as an unordered pair.\<close>

definition unordered :: "'a edge \<Rightarrow> int set" where
  "unordered r = {p1 r, p2 r}"

section \<open>Python exceptions, numpy arrays\<close>

text \<open>
  Every \<open>raise\<close> of the source, and every exception raised by a dictionary lookup, an
  index or a library call it makes, is a value of \<open>error\<close>. \<open>NotAnArray\<close> is not a
  Python exception: it marks reading, through \<open>people[key]\<close>, a name that \<open>__init__\<close>
  binds to an object other than an array (\<open>pop_size\<close>, \<open>pars\<close>, ...), which this
  embedding keeps in typed record fields.
\<close>

datatype error =
  AttributeError | IndexError | KeyError | TypeError | ValueError | UnboundLocalError
  | AssertionError | NotAnArray

text \<open>
  A method that mutates \<open>self\<close> returns the exception it raised, if any, together with
  the object as the call leaves it: what was assigned before a \<open>raise\<close> stays assigned.
\<close>

type_synonym 'a outcome = "error option \<times> 'a"

datatype dtype = np_bool | np_int32 | np_int64 | np_float32 | np_float64 | np_str | np_object

text \<open>
  Array elements. Floating-point numbers are values of a type \<open>'f\<close> that is left open;
  the only float the code below needs by name is zero.
\<close>

datatype 'f val = VBool bool | VInt int | VFloat 'f | VStr string

text \<open>
  A one-dimensional array: its dtype, its elements, and numpy's flag \<open>owndata\<close>, which
  is set for an array that owns its memory, as every array returned by a numpy
  constructor does, and clear for a view on the memory of another object (a slice of an
  array, an array over a buffer). The elements lie next to each other in memory: a
  view with a stride, as \<open>a[::2]\<close> is, is not embedded.
\<close>

record 'f ndarray =
  dtype :: dtype
  elems :: "'f val list"
  owndata :: bool

text \<open>
  numpy is a library, not part of the repository: how it converts an element to a dtype
  (\<open>conv\<close>), or which exception it raises when it cannot, and which dtype it gives a
  concatenation of arrays of two different dtypes (\<open>result_type\<close>), or which exception
  it raises when there is none, are parameters of the model. What is fixed here is that
  an array that already has the requested dtype is copied with its elements, and that
  arrays of one dtype concatenate to an array of that dtype.
\<close>

record 'f numpy =
  conv :: "dtype \<Rightarrow> 'f val \<Rightarrow> error + 'f val"
  result_type :: "dtype \<Rightarrow> dtype \<Rightarrow> error + dtype"

text \<open>
  The conversion of the elements one after the other: the exception of the first element
  that cannot be converted, or the converted elements.
\<close>

fun convert :: "('f val \<Rightarrow> error + 'f val) \<Rightarrow> 'f val list \<Rightarrow> error + 'f val list" where
  "convert f [] = Inr []"
| "convert f (x # xs) =
     (case f x of
        Inl e \<Rightarrow> Inl e
      | Inr y \<Rightarrow> (case convert f xs of Inl e \<Rightarrow> Inl e | Inr ys \<Rightarrow> Inr (y # ys)))"

text \<open>
  \<open>np.array(value, dtype=d)\<close> for an array \<open>value\<close>: a new array, which owns its
  memory.
\<close>

definition np_array :: "'f numpy \<Rightarrow> 'f ndarray \<Rightarrow> dtype \<Rightarrow> error + 'f ndarray" where
  "np_array np value d =
     (if dtype value = d then Inr (value\<lparr>owndata := True\<rparr>)
      else (case convert (conv np d) (elems value) of
              Inl e \<Rightarrow> Inl e
            | Inr xs \<Rightarrow> Inr \<lparr>dtype = d, elems = xs, owndata = True\<rparr>))"

text \<open>\<open>np.concatenate([a, b])\<close>.\<close>

definition np_concatenate :: "'f numpy \<Rightarrow> 'f ndarray \<Rightarrow> 'f ndarray \<Rightarrow> error + 'f ndarray" where
  "np_concatenate np a b =
     (if dtype a = dtype b
      then Inr \<lparr>dtype = dtype a, elems = elems a @ elems b, owndata = True\<rparr>
      else (case result_type np (dtype a) (dtype b) of
              Inl e \<Rightarrow> Inl e
            | Inr d \<Rightarrow>
                (case convert (conv np d) (elems a @ elems b) of
                   Inl e \<Rightarrow> Inl e
                 | Inr xs \<Rightarrow> Inr \<lparr>dtype = d, elems = xs, owndata = True\<rparr>)))"

text \<open>\<open>np.arange(n)\<close> for a Python integer \<open>n\<close>: empty when \<open>n \<le> 0\<close>.\<close>

definition np_arange :: "int \<Rightarrow> 'f ndarray" where
  "np_arange n =
     \<lparr>dtype = np_int64, elems = map (\<lambda>i. VInt (int i)) [0..<nat n], owndata = True\<rparr>"

text \<open>\<open>np.empty((0,), dtype=d)\<close>.\<close>

definition np_empty :: "dtype \<Rightarrow> 'f ndarray" where
  "np_empty d = \<lparr>dtype = d, elems = [], owndata = True\<rparr>"

text \<open>A Python list, where the code later hands it to \<open>np.array\<close>.\<close>

definition pylist :: "'f val list \<Rightarrow> 'f ndarray" where
  "pylist xs = \<lparr>dtype = np_object, elems = xs, owndata = True\<rparr>"

text \<open>The zero numpy pads with, by dtype (an object array is padded with the integer 0).\<close>

fun zero_of :: "dtype \<Rightarrow> ('f::zero) val" where
  "zero_of np_bool = VBool False"
| "zero_of np_float32 = VFloat 0"
| "zero_of np_float64 = VFloat 0"
| "zero_of np_str = VStr []"
| "zero_of d = VInt 0"

text \<open>
  The contents of \<open>a\<close> after \<open>a.resize(n, refcheck=False)\<close>, for a one-dimensional
  array: the first \<open>n\<close> elements, padded with zeros up to \<open>n\<close>.
\<close>

definition fit :: "int \<Rightarrow> ('f::zero) ndarray \<Rightarrow> 'f ndarray" where
  "fit n a = a\<lparr>elems := take (nat n) (elems a)
                 @ replicate (nat n - length (elems a)) (zero_of (dtype a))\<rparr>"

text \<open>
  \<open>a.resize(n, refcheck=False)\<close>: a negative size is a \<open>ValueError\<close>, and so is
  another size than the present one for an array that does not own its memory. The
  array is changed in place, so it stays the owner of its memory.
\<close>

definition np_resize :: "('f::zero) ndarray \<Rightarrow> int \<Rightarrow> error + 'f ndarray" where
  "np_resize a n =
     (if n < 0 then Inl ValueError
      else if nat n \<noteq> length (elems a) \<and> \<not> owndata a then Inl ValueError
      else Inr (fit n a))"

text \<open>Python truth of an element.\<close>

fun truthy :: "('f::zero) val \<Rightarrow> bool" where
  "truthy (VBool b) = b"
| "truthy (VInt i) = (i \<noteq> 0)"
| "truthy (VFloat x) = (x \<noteq> 0)"
| "truthy (VStr s) = (s \<noteq> [])"

text \<open>\<open>a.nonzero()[0]\<close>: the indices of the truthy elements, ascending.\<close>

definition nonzero :: "('f::zero) ndarray \<Rightarrow> int list" where
  "nonzero a = map int (filter (\<lambda>i. truthy (elems a ! i)) [0..<length (elems a)])"

text \<open>\<open>~x\<close> on an integer array: bitwise complement of each element, \<open>-x-1\<close>.\<close>

definition invert :: "int list \<Rightarrow> int list" where
  "invert xs = map (\<lambda>i. - i - 1) xs"

text \<open>\<open>sc.promotetolist\<close>: a single key becomes a one-element list.\<close>

datatype 'a one_or_many = One 'a | Many "'a list"

fun promotetolist :: "'a one_or_many \<Rightarrow> 'a list" where
  "promotetolist (One x) = [x]"
| "promotetolist (Many xs) = xs"

section \<open>Layers, contacts and the transmission tree\<close>

text \<open>
  A \<open>Layer\<close> is a dictionary from column names to arrays, with the attributes
  \<open>basekey\<close> and \<open>layer_info\<close>. Python dictionaries keep insertion order, so a
  dictionary is an association list: \<open>AList.update\<close> overwrites in place or appends,
  \<open>map_of\<close> looks up, \<open>AList.delete\<close> removes.
\<close>

record 'f Layer =
  basekey :: string
  linfo :: "(string \<times> dtype) list"
  cols :: "(string \<times> 'f ndarray) list"

text \<open>\<open>Layer.__init__(layer_info)\<close>, without keyword arguments.\<close>

definition Layer_init :: "(string \<times> dtype) list \<Rightarrow> 'f Layer" where
  "Layer_init info =
     \<lparr>basekey = ''p1'', linfo = info,
      cols = foldl (\<lambda>c (key, d). AList.update key (np_empty d) c) [] info\<rparr>"

text \<open>\<open>layer[key]\<close>: a \<open>Layer\<close> is a plain \<open>dict\<close> here.\<close>

definition column :: "'f Layer \<Rightarrow> string \<Rightarrow> error + 'f ndarray" where
  "column l key = (case map_of (cols l) key of None \<Rightarrow> Inl KeyError | Some a \<Rightarrow> Inr a)"

definition set_column :: "'f Layer \<Rightarrow> string \<Rightarrow> 'f ndarray \<Rightarrow> 'f Layer" where
  "set_column l key a = l\<lparr>cols := AList.update key a (cols l)\<rparr>"

text \<open>
  \<open>Layer.validate\<close>: the dtype objects of \<open>layer_info\<close> are all truthy, so the dtype
  is asserted for every column.
\<close>

fun Layer_validate_loop :: "'f Layer \<Rightarrow> nat \<Rightarrow> (string \<times> dtype) list \<Rightarrow> error option" where
  "Layer_validate_loop l n [] = None"
| "Layer_validate_loop l n ((key, d) # rest) =
     (case column l key of
        Inl e \<Rightarrow> Some e
      | Inr a \<Rightarrow>
          if dtype a \<noteq> d then Some AssertionError
          else if n \<noteq> length (elems a) then Some AssertionError
          else Layer_validate_loop l n rest)"

definition Layer_validate :: "'f Layer \<Rightarrow> error option" where
  "Layer_validate l =
     (case column l (basekey l) of
        Inl e \<Rightarrow> Some e
      | Inr a \<Rightarrow> Layer_validate_loop l (length (elems a)) (linfo l))"

text \<open>
  \<open>Contacts\<close> is a \<open>dict\<close> from layer keys (strings) to layers whose
  \<open>__getitem__\<close> falls back to a position: when the lookup raises \<open>KeyError\<close>, the key
  is tried as an index into \<open>list(self.keys())\<close>, and whatever that raises (a
  \<open>TypeError\<close> for a string, an \<open>IndexError\<close> out of range) is replaced by the original
  \<open>KeyError\<close>.
\<close>

type_synonym 'f Contacts = "(string \<times> 'f Layer) list"

datatype key = StrKey string | IntKey int

fun Contacts_getitem :: "(string \<times> 'a) list \<Rightarrow> key \<Rightarrow> error + 'a" where
  "Contacts_getitem c (StrKey k) =
     (case map_of c k of None \<Rightarrow> Inl KeyError | Some l \<Rightarrow> Inr l)"
| "Contacts_getitem c (IntKey i) =
     (let ks = map fst c; n = int (length ks); j = (if i < 0 then n + i else i)
      in if 0 \<le> j \<and> j < n
         then (case map_of c (ks ! nat j) of None \<Rightarrow> Inl KeyError | Some l \<Rightarrow> Inr l)
         else Inl KeyError)"

record TransTree =
  sources :: "int option list"
  targets :: "int list list"

text \<open>\<open>TransTree.__init__(pop_size, sources, targets)\<close>.\<close>

definition TransTree_init ::
  "int option \<Rightarrow> int option list option \<Rightarrow> int list list option \<Rightarrow> TransTree" where
  "TransTree_init pop_size0 sources0 targets0 =
     \<lparr>sources = (case sources0 of
                   Some s \<Rightarrow> s
                 | None \<Rightarrow> (case pop_size0 of None \<Rightarrow> []
                            | Some n \<Rightarrow> replicate (nat n) None)),
      targets = (case targets0 of
                   Some t \<Rightarrow> t
                 | None \<Rightarrow> (case pop_size0 of None \<Rightarrow> []
                            | Some n \<Rightarrow> map (\<lambda>p. []) [0..<nat n]))\<rparr>"

section \<open>The population store \<open>BasePeople\<close>\<close>

text \<open>
  The parameter dictionary \<open>pars\<close>, as far as this code reads it: the entries
  \<open>'pop_size'\<close>, \<open>'beta_layer'\<close> (layer key to transmission weight) and \<open>'contacts'\<close>
  (the configured layer keys), each of which may be missing.
\<close>

record 'f pars_dict =
  par_pop_size :: "int option"
  par_beta_layer :: "(string \<times> 'f) list option"
  par_contacts :: "string list option"

text \<open>
  \<open>cvd.PeopleKeys\<close> is defined in \<open>defaults.py\<close>, which is not part of the sources at
  hand: the list \<open>all_states\<close> and the dictionary \<open>contacts\<close> (column name to dtype) are
  taken as given.
\<close>

record PeopleKeys =
  all_states :: "string list"
  kl_contacts :: "(string \<times> dtype) list"

text \<open>
  The instance dictionary of a \<open>BasePeople\<close>. The names that \<open>__init__\<close> binds are
  typed fields (\<open>lock\<close> is \<open>_lock\<close>, \<open>cur_t\<close> is \<open>t\<close>). \<open>dtypes\<close> is \<open>_dtypes\<close>,
  which \<open>set\<close> reads and the subclass assigns: it is \<open>None\<close> while the attribute does
  not exist. \<open>attrs\<close> holds every other entry of \<open>__dict__\<close>, the per-person arrays.
  What a name of \<open>attrs\<close> is bound to, \<open>'a\<close>, is the array itself where arrays are
  values (\<open>'f BasePeople\<close>), and the address of the array where the identity of the
  array objects matters (the heap, further down).
\<close>

record ('f, 'a) BasePeople_obj =
  pars :: "'f pars_dict option"
  pop_size :: int
  cur_t :: int
  lock :: bool
  default_dtype :: dtype
  keylist :: PeopleKeys
  layer_info :: "(string \<times> dtype) list"
  contacts :: "'f Contacts option"
  transtree :: TransTree
  dtypes :: "(string \<rightharpoonup> dtype) option"
  attrs :: "string \<rightharpoonup> 'a"

type_synonym 'f BasePeople = "('f, 'f ndarray) BasePeople_obj"

text \<open>The names bound through attribute syntax: by \<open>__init__\<close>, and \<open>_dtypes\<close> once assigned.\<close>

definition base_attrs :: "('f, 'a) BasePeople_obj \<Rightarrow> string list" where
  "base_attrs p =
     [''pars'', ''pop_size'', ''t'', ''_lock'', ''_default_dtype'', ''keylist'',
      ''layer_info'', ''contacts'', ''transtree'']
     @ (if dtypes p = None then [] else [''_dtypes''])"

text \<open>\<open>key in self.__dict__\<close>.\<close>

definition in_dict :: "('f, 'a) BasePeople_obj \<Rightarrow> string \<Rightarrow> bool" where
  "in_dict p key \<longleftrightarrow> key \<in> set (base_attrs p) \<union> dom (attrs p)"

text \<open>\<open>__getitem__\<close>, for a name bound to an array.\<close>

definition getitem :: "('f, 'a) BasePeople_obj \<Rightarrow> string \<Rightarrow> error + 'a" where
  "getitem p key =
     (if key \<in> set (base_attrs p) then Inl NotAnArray
      else case attrs p key of None \<Rightarrow> Inl AttributeError | Some a \<Rightarrow> Inr a)"

text \<open>
  The object after \<open>self.__dict__[key] = value\<close>, for an array \<open>value\<close> (or its
  address). Where \<open>key\<close> is none of the names held in typed fields the object is a store
  as before, with \<open>key\<close> bound to \<open>value\<close> in \<open>attrs\<close>. Where \<open>key\<close> is one of
  them (\<open>'pop_size'\<close>, \<open>'_lock'\<close>, ...) the assignment rebinds that name to the array:
  \<open>Rebound p key value\<close> is the store \<open>p\<close> with this one name bound to \<open>value\<close>
  instead of what its typed field holds.
\<close>

datatype ('f, 'a) assigned =
  Typed "('f, 'a) BasePeople_obj"
| Rebound "('f, 'a) BasePeople_obj" string 'a

text \<open>\<open>__setitem__\<close>, for an array \<open>value\<close> (or its address).\<close>

definition setitem ::
  "('f, 'a) BasePeople_obj \<Rightarrow> string \<Rightarrow> 'a \<Rightarrow> ('f, 'a) assigned outcome" where
  "setitem p key value =
     (if lock p \<and> \<not> in_dict p key then (Some AttributeError, Typed p)
      else if key \<in> set (base_attrs p) then (None, Rebound p key value)
      else (None, Typed (p\<lparr>attrs := (attrs p)(key \<mapsto> value)\<rparr>)))"



text \<open>
  \<open>len(self)\<close>: \<open>__len__\<close> returns \<open>pop_size\<close>, and Python's \<open>len\<close> raises
  \<open>ValueError\<close> when \<open>__len__\<close> returns a negative number. (Its upper bound
  \<open>sys.maxsize\<close> depends on the platform and is not modelled.)
\<close>

definition len :: "('f, 'a) BasePeople_obj \<Rightarrow> error + int" where
  "len p = (if pop_size p < 0 then Inl ValueError else Inr (pop_size p))"

text \<open>
  \<open>keys()\<close> with \<open>which=None\<close>, as every call in this file has it: a copy of
  \<open>keylist.all_states\<close>.
\<close>

definition keys :: "('f, 'a) BasePeople_obj \<Rightarrow> string list" where
  "keys p = all_states (keylist p)"

text \<open>\<open>contact_keys\<close>: any exception of the lookup gives the empty list.\<close>

definition contact_keys :: "'f BasePeople \<Rightarrow> string list" where
  "contact_keys p =
     (case pars p of
        None \<Rightarrow> []
      | Some ps \<Rightarrow> (case par_beta_layer ps of None \<Rightarrow> [] | Some bl \<Rightarrow> map fst bl))"

text \<open>
  \<open>init_contacts(output, keys)\<close>: \<open>keys0\<close> is the list of keys after
  \<open>promotetolist\<close>, or \<open>None\<close>. With \<open>output\<close> the new dictionary is returned and
  \<open>self\<close> is untouched.
\<close>

definition init_contacts ::
  "'f BasePeople \<Rightarrow> bool \<Rightarrow> string list option \<Rightarrow> 'f Contacts option \<times> 'f BasePeople" where
  "init_contacts p output keys0 =
     (let ks = (case keys0 of None \<Rightarrow> contact_keys p | Some ks' \<Rightarrow> ks');
          new = foldl (\<lambda>c k. AList.update k (Layer_init (layer_info p)) c) [] ks
      in if output then (Some new, p)
         else (None,
               case contacts p of
                 None \<Rightarrow> p\<lparr>contacts := Some new\<rparr>
               | Some cur \<Rightarrow>
                   p\<lparr>contacts := Some (foldl (\<lambda>c (k, layer). AList.update k layer c) cur new)\<rparr>))"

text \<open>
  \<open>__init__(pars, pop_size)\<close>; \<open>kl\<close> is the value of \<open>cvd.PeopleKeys()\<close>. The
  population size is an integer, so \<open>int(pop_size)\<close> returns it. \<open>pars['pop_size']\<close>
  raises \<open>KeyError\<close> when the entry is missing. The transmission tree does not depend
  on the contacts, nor the contacts on it, so the record is built with the tree in place
  before \<open>init_contacts\<close> runs.
\<close>

definition init ::
  "PeopleKeys \<Rightarrow> 'f pars_dict option \<Rightarrow> int option \<Rightarrow> error + 'f BasePeople" where
  "init kl pars0 pop_size0 =
     (case (case pop_size0 of
              Some n \<Rightarrow> Inr n
            | None \<Rightarrow> (case pars0 of
                         None \<Rightarrow> Inr 0
                       | Some ps \<Rightarrow> (case par_pop_size ps of
                                      None \<Rightarrow> Inl KeyError
                                    | Some n \<Rightarrow> Inr n))) of
        Inl e \<Rightarrow> Inl e
      | Inr n \<Rightarrow>
          Inr (snd (init_contacts
                 \<lparr>pars = pars0, pop_size = n, cur_t = 0, lock = False,
                  default_dtype = np_float32, keylist = kl, layer_info = kl_contacts kl,
                  contacts = None, transtree = TransTree_init (Some n) None None,
                  dtypes = None, attrs = Map.empty\<rparr>
                 False None)))"

text \<open>
  \<open>set(key, value, die)\<close>, for an array \<open>value\<close>. The item assignment at its end is
  reached only with a \<open>key\<close> that \<open>self[key]\<close> found bound to an array, so it leaves a
  store (\<open>Typed\<close>).
\<close>

definition set_key ::
  "'f numpy \<Rightarrow> 'f BasePeople \<Rightarrow> string \<Rightarrow> 'f ndarray \<Rightarrow> bool \<Rightarrow> 'f BasePeople outcome" where
  "set_key np p key value die =
     (case getitem p key of
        Inl e \<Rightarrow> (Some e, p)
      | Inr current \<Rightarrow>
          (case dtypes p of
             None \<Rightarrow> (Some AttributeError, p)
           | Some dt \<Rightarrow>
               (case dt key of
                  None \<Rightarrow> (Some KeyError, p)
                | Some d \<Rightarrow>
                    (case np_array np value d of
                       Inl e \<Rightarrow> (Some e, p)
                     | Inr value' \<Rightarrow>
                         if die \<and> length (elems value') \<noteq> length (elems current)
                         then (Some IndexError, p)
                         else (case setitem p key value' of
                                 (e, Typed p') \<Rightarrow> (e, p')
                               | (e, Rebound p' k v) \<Rightarrow> (Some NotAnArray, p'))))))"

text \<open>\<open>true(key)\<close> returns \<open>self[key].nonzero()[0]\<close>.\<close>

definition true :: "('f::zero) BasePeople \<Rightarrow> string \<Rightarrow> error + int list" where
  "true p key = (case getitem p key of Inl e \<Rightarrow> Inl e | Inr a \<Rightarrow> Inr (nonzero a))"

text \<open>
  \<open>false(key)\<close> returns \<open>~self[key].nonzero()[0]\<close>. Subscription and the call bind
  tighter than \<open>~\<close>: the complement is applied to the index array.
\<close>

definition false :: "('f::zero) BasePeople \<Rightarrow> string \<Rightarrow> error + int list" where
  "false p key =
     (case getitem p key of Inl e \<Rightarrow> Inl e | Inr a \<Rightarrow> Inr (invert (nonzero a)))"

text \<open>
  \<open>resize(pop_size, keys)\<close>. Each array is resized in place: the attribute stays
  bound to the same array object, whose contents change.
\<close>

fun resize_loop ::
  "('f::zero) BasePeople \<Rightarrow> int \<Rightarrow> string list \<Rightarrow> 'f BasePeople outcome" where
  "resize_loop p n [] = (None, p)"
| "resize_loop p n (key # ks) =
     (case getitem p key of
        Inl e \<Rightarrow> (Some e, p)
      | Inr a \<Rightarrow>
          (case np_resize a n of
             Inl e \<Rightarrow> (Some e, p)
           | Inr a' \<Rightarrow> resize_loop (p\<lparr>attrs := (attrs p)(key \<mapsto> a')\<rparr>) n ks))"

definition resize ::
  "('f::zero) BasePeople \<Rightarrow> int option \<Rightarrow> string one_or_many option \<Rightarrow> 'f BasePeople outcome" where
  "resize p pop_size0 keys0 =
     (case (case pop_size0 of None \<Rightarrow> len p | Some n' \<Rightarrow> Inr n') of
        Inl e \<Rightarrow> (Some e, p)
      | Inr n \<Rightarrow>
          (let p' = p\<lparr>pop_size := n\<rparr>;
               ks = (case keys0 of None \<Rightarrow> keys p' | Some k \<Rightarrow> promotetolist k)
           in resize_loop p' n ks))"

text \<open>\<open>validate(die)\<close>; \<open>verbose\<close> only prints.\<close>

fun validate_loop ::
  "('f::zero) BasePeople \<Rightarrow> bool \<Rightarrow> int \<Rightarrow> string list \<Rightarrow> 'f BasePeople outcome" where
  "validate_loop p die expected_len [] = (None, p)"
| "validate_loop p die expected_len (key # ks) =
     (case getitem p key of
        Inl e \<Rightarrow> (Some e, p)
      | Inr a \<Rightarrow>
          if int (length (elems a)) \<noteq> expected_len
          then (if die then (Some IndexError, p)
                else (case resize p None (Some (One key)) of
                        (Some e, p') \<Rightarrow> (Some e, p')
                      | (None, p') \<Rightarrow> validate_loop p' die expected_len ks))
          else validate_loop p die expected_len ks)"

definition validate :: "('f::zero) BasePeople \<Rightarrow> bool \<Rightarrow> 'f BasePeople outcome" where
  "validate p die =
     (case len p of
        Inl e \<Rightarrow> (Some e, p)
      | Inr expected_len \<Rightarrow> validate_loop p die expected_len (keys p))"

text \<open>
  \<open>sc.dcp(self)\<close>, a deep copy: as a value it is \<open>self\<close>, except that the copy of an
  array owns its memory, whether the original does or not. The arrays of a store are
  those of its attributes and the columns of its contact layers.
\<close>

definition copy_array :: "'f ndarray \<Rightarrow> 'f ndarray" where
  "copy_array a = a\<lparr>owndata := True\<rparr>"

definition copy_layer :: "'f Layer \<Rightarrow> 'f Layer" where
  "copy_layer l = l\<lparr>cols := map (\<lambda>(k, a). (k, copy_array a)) (cols l)\<rparr>"

definition copy_contacts :: "'f Contacts option \<Rightarrow> 'f Contacts option" where
  "copy_contacts c = map_option (map (\<lambda>(k, l). (k, copy_layer l))) c"

definition dcp :: "'f BasePeople \<Rightarrow> 'f BasePeople" where
  "dcp p = p\<lparr>contacts := copy_contacts (contacts p),
              attrs := (\<lambda>k. map_option copy_array (attrs p k))\<rparr>"

text \<open>
  \<open>__add__\<close>. The loop runs over \<open>self.keys()\<close>; the partly built copy is dropped
  when a call raises.
\<close>

fun add_loop ::
  "'f numpy \<Rightarrow> 'f BasePeople \<Rightarrow> 'f BasePeople \<Rightarrow> string list \<Rightarrow> 'f BasePeople outcome" where
  "add_loop np newpeople people2 [] = (None, newpeople)"
| "add_loop np newpeople people2 (key # ks) =
     (case getitem newpeople key of
        Inl e \<Rightarrow> (Some e, newpeople)
      | Inr a \<Rightarrow>
          (case getitem people2 key of
             Inl e \<Rightarrow> (Some e, newpeople)
           | Inr b \<Rightarrow>
               (case np_concatenate np a b of
                  Inl e \<Rightarrow> (Some e, newpeople)
                | Inr c \<Rightarrow>
                    (case set_key np newpeople key c False of
                       (Some e, newpeople') \<Rightarrow> (Some e, newpeople')
                     | (None, newpeople') \<Rightarrow> add_loop np newpeople' people2 ks))))"

definition add ::
  "('f::zero) numpy \<Rightarrow> 'f BasePeople \<Rightarrow> 'f BasePeople \<Rightarrow> error + 'f BasePeople" where
  "add np self people2 =
     (case add_loop np (dcp self) people2 (keys self) of
        (Some e, _) \<Rightarrow> Inl e
      | (None, new1) \<Rightarrow>
          (case validate (new1\<lparr>pop_size := pop_size new1 + pop_size people2\<rparr>) True of
             (Some e, _) \<Rightarrow> Inl e
           | (None, new2) \<Rightarrow>
               (case len new2 of
                  Inl e \<Rightarrow> Inl e
                | Inr n \<Rightarrow>
                    (case set_key np new2 ''uid'' (np_arange n) True of
                       (Some e, _) \<Rightarrow> Inl e
                     | (None, new3) \<Rightarrow> Inr new3))))"

section \<open>Contact edges: \<open>make_edgelist\<close>, \<open>add_contacts\<close>, \<open>remove_dynamic_contacts\<close>\<close>

text \<open>
  \<open>new_contacts[lkey][col] = value\<close> and \<open>new_contacts[lkey][col].extend(xs)\<close> on a
  \<open>Contacts\<close> object: the layer is fetched with \<open>Contacts.__getitem__\<close> first.
\<close>

definition assign_in ::
  "'f Contacts \<Rightarrow> string \<Rightarrow> string \<Rightarrow> 'f ndarray \<Rightarrow> error + 'f Contacts" where
  "assign_in nc lkey col value =
     (case Contacts_getitem nc (StrKey lkey) of
        Inl e \<Rightarrow> Inl e
      | Inr l \<Rightarrow> Inr (AList.update lkey (set_column l col value) nc))"

definition extend_in ::
  "'f Contacts \<Rightarrow> string \<Rightarrow> string \<Rightarrow> 'f val list \<Rightarrow> error + 'f Contacts" where
  "extend_in nc lkey col xs =
     (case Contacts_getitem nc (StrKey lkey) of
        Inl e \<Rightarrow> Inl e
      | Inr l \<Rightarrow>
          (case column l col of
             Inl e \<Rightarrow> Inl e
           | Inr a \<Rightarrow> Inr (AList.update lkey (set_column l col (a\<lparr>elems := elems a @ xs\<rparr>)) nc)))"

text \<open>First loop of \<open>make_edgelist\<close>: three empty lists per layer key.\<close>

fun clear_columns :: "'f Contacts \<Rightarrow> string list \<Rightarrow> error + 'f Contacts" where
  "clear_columns nc [] = Inr nc"
| "clear_columns nc (lkey # lkeys) =
     (case assign_in nc lkey ''p1'' (pylist []) of
        Inl e \<Rightarrow> Inl e
      | Inr nc1 \<Rightarrow>
          (case assign_in nc1 lkey ''p2'' (pylist []) of
             Inl e \<Rightarrow> Inl e
           | Inr nc2 \<Rightarrow>
               (case assign_in nc2 lkey ''layer'' (pylist []) of
                  Inl e \<Rightarrow> Inl e
                | Inr nc3 \<Rightarrow> clear_columns nc3 lkeys)))"

text \<open>
  Second loop. Its body indexes \<open>new_contacts\<close> with \<open>lkey\<close>, the variable of the first
  loop: the last layer key, or an unbound local when there was none (\<open>lk\<close>).
\<close>

fun extend_person ::
  "string option \<Rightarrow> nat \<Rightarrow> 'f Contacts \<Rightarrow> (string \<times> int list) list \<Rightarrow> error + 'f Contacts" where
  "extend_person lk p nc [] = Inr nc"
| "extend_person lk p nc ((k, p_contacts) # cdict) =
     (case lk of
        None \<Rightarrow> Inl UnboundLocalError
      | Some lkey \<Rightarrow>
          (let n = length p_contacts
           in case extend_in nc lkey ''p1'' (replicate n (VInt (int p))) of
                Inl e \<Rightarrow> Inl e
              | Inr nc1 \<Rightarrow>
                  (case extend_in nc1 lkey ''p2'' (map VInt p_contacts) of
                     Inl e \<Rightarrow> Inl e
                   | Inr nc2 \<Rightarrow>
                       (case extend_in nc2 lkey ''layer'' (replicate n (VStr k)) of
                          Inl e \<Rightarrow> Inl e
                        | Inr nc3 \<Rightarrow> extend_person lk p nc3 cdict))))"

fun extend_people ::
  "string option \<Rightarrow> nat \<Rightarrow> 'f Contacts \<Rightarrow> (string \<times> int list) list list \<Rightarrow> error + 'f Contacts" where
  "extend_people lk p nc [] = Inr nc"
| "extend_people lk p nc (cdict # rest) =
     (case extend_person lk p nc cdict of
        Inl e \<Rightarrow> Inl e
      | Inr nc' \<Rightarrow> extend_people lk (Suc p) nc' rest)"

text \<open>Third loop: every column becomes an array of the dtype \<open>keylist.contacts\<close> gives it.\<close>

fun convert_columns ::
  "'f numpy \<Rightarrow> (string \<times> dtype) list \<Rightarrow> 'f Layer \<Rightarrow> (string \<times> 'f ndarray) list \<Rightarrow> error + 'f Layer" where
  "convert_columns np info new_layer [] = Inr new_layer"
| "convert_columns np info new_layer ((k, value) # rest) =
     (case map_of info k of
        None \<Rightarrow> Inl KeyError
      | Some d \<Rightarrow>
          (case np_array np value d of
             Inl e \<Rightarrow> Inl e
           | Inr a \<Rightarrow> convert_columns np info (set_column new_layer k a) rest))"

fun to_layers ::
  "'f numpy \<Rightarrow> 'f BasePeople \<Rightarrow> 'f Contacts \<Rightarrow> string list \<Rightarrow> error + 'f Contacts" where
  "to_layers np p nc [] = Inr nc"
| "to_layers np p nc (lkey # lkeys) =
     (case Contacts_getitem nc (StrKey lkey) of
        Inl e \<Rightarrow> Inl e
      | Inr raw \<Rightarrow>
          (case convert_columns np (kl_contacts (keylist p)) (Layer_init (layer_info p)) (cols raw) of
             Inl e \<Rightarrow> Inl e
           | Inr new_layer \<Rightarrow> to_layers np p (AList.update lkey new_layer nc) lkeys))"

text \<open>
  \<open>make_edgelist(contacts)\<close>: \<open>adj\<close> holds, for each person, the dictionary from layer
  key to that person's contacts. \<open>new_contacts\<close> starts as the empty \<open>Contacts()\<close>.
\<close>

definition make_edgelist ::
  "'f numpy \<Rightarrow> 'f BasePeople \<Rightarrow> (string \<times> int list) list list \<Rightarrow> error + 'f Contacts" where
  "make_edgelist np p adj =
     (case adj of
        [] \<Rightarrow> Inl IndexError
      | c0 # _ \<Rightarrow>
          (let lkeys = map fst c0
           in case clear_columns [] lkeys of
                Inl e \<Rightarrow> Inl e
              | Inr nc1 \<Rightarrow>
                  (case extend_people (if lkeys = [] then None else Some (last lkeys)) 0 nc1 adj of
                     Inl e \<Rightarrow> Inl e
                   | Inr nc2 \<Rightarrow> to_layers np p nc2 lkeys)))"

text \<open>
  The shapes of the \<open>contacts\<close> argument of \<open>add_contacts\<close> that are embedded: a
  \<open>Layer\<close>, a list with one dictionary of contacts per person, and a value that is
  neither of these nor a dictionary nor an array. (A dictionary, a \<open>Contacts\<close> object
  and a numpy array are turned into pandas data frames, which are not embedded.) What the
  loop of \<open>add_contacts\<close> does with a new layer it does by column name: a new layer is
  the dictionary of its columns.
\<close>

datatype 'f contacts_arg =
  ArgLayer "'f Layer"
| ArgList "(string \<times> int list) list list"
| ArgOther

text \<open>The \<open>isinstance\<close> chain.\<close>

definition normalise ::
  "'f numpy \<Rightarrow> 'f BasePeople \<Rightarrow> string \<Rightarrow> 'f contacts_arg
     \<Rightarrow> error + (string \<times> (string \<times> 'f ndarray) list) list" where
  "normalise np p key arg =
     (case arg of
        ArgLayer l \<Rightarrow> Inr [(key, cols l)]
      | ArgList adj \<Rightarrow>
          (case make_edgelist np p adj of
             Inl e \<Rightarrow> Inl e
           | Inr nc \<Rightarrow> Inr (map (\<lambda>(k, l). (k, cols l)) nc))
      | ArgOther \<Rightarrow> Inl TypeError)"

text \<open>
  The \<open>beta\<close> column: filled when it is missing or has the wrong length, with
  \<open>np.float32(beta)\<close>, where a \<open>beta\<close> that is still \<open>None\<close> is first read from
  \<open>pars['beta_layer'][key]\<close>. The variable \<open>beta\<close> keeps its value for the layers that
  follow.
\<close>

definition fill_beta ::
  "'f numpy \<Rightarrow> 'f BasePeople \<Rightarrow> string \<Rightarrow> 'f val option \<Rightarrow> nat \<Rightarrow> (string \<times> 'f ndarray) list
     \<Rightarrow> error + ('f val option \<times> (string \<times> 'f ndarray) list)" where
  "fill_beta np p key beta n new_layer =
     (if (case map_of new_layer ''beta'' of None \<Rightarrow> True | Some b \<Rightarrow> length (elems b) \<noteq> n)
      then (case (case beta of
                    Some b \<Rightarrow> Inr b
                  | None \<Rightarrow>
                      (case pars p of
                         None \<Rightarrow> Inl TypeError
                       | Some ps \<Rightarrow>
                           (case par_beta_layer ps of
                              None \<Rightarrow> Inl KeyError
                            | Some bl \<Rightarrow>
                                (case map_of bl key of
                                   None \<Rightarrow> Inl KeyError
                                 | Some b \<Rightarrow> Inr (VFloat b))))) of
              Inl e \<Rightarrow> Inl e
            | Inr b \<Rightarrow>
                (case conv np np_float32 b of
                   Inl e \<Rightarrow> Inl e
                 | Inr b32 \<Rightarrow>
                     Inr (Some b32,
                          AList.update ''beta''
                            \<lparr>dtype = np_float32, elems = replicate n b32, owndata = True\<rparr>
                            new_layer)))
      else Inr (beta, new_layer))"

text \<open>
  \<open>for col in self.layer_info.keys(): self.contacts[lkey][col] = np.concatenate(...)\<close>;
  the layer of \<open>self.contacts\<close> is changed in place.
\<close>

fun include_columns ::
  "'f numpy \<Rightarrow> 'f BasePeople \<Rightarrow> string \<Rightarrow> (string \<times> 'f ndarray) list \<Rightarrow> string list
     \<Rightarrow> 'f BasePeople outcome" where
  "include_columns np p lkey new_layer [] = (None, p)"
| "include_columns np p lkey new_layer (col # rest) =
     (case contacts p of
        None \<Rightarrow> (Some TypeError, p)
      | Some c \<Rightarrow>
          (case Contacts_getitem c (StrKey lkey) of
             Inl e \<Rightarrow> (Some e, p)
           | Inr l \<Rightarrow>
               (case column l col of
                  Inl e \<Rightarrow> (Some e, p)
                | Inr old \<Rightarrow>
                    (case map_of new_layer col of
                       None \<Rightarrow> (Some KeyError, p)
                     | Some new \<Rightarrow>
                         (case np_concatenate np old new of
                            Inl e \<Rightarrow> (Some e, p)
                          | Inr a \<Rightarrow>
                              include_columns np
                                (p\<lparr>contacts :=
                                     Some (AList.update lkey (set_column l col a) c)\<rparr>)
                                lkey new_layer rest)))))"

fun merge_layers ::
  "'f numpy \<Rightarrow> 'f BasePeople \<Rightarrow> string \<Rightarrow> 'f val option
     \<Rightarrow> (string \<times> (string \<times> 'f ndarray) list) list \<Rightarrow> 'f BasePeople outcome" where
  "merge_layers np p key beta [] = (None, p)"
| "merge_layers np p key beta ((lkey, new_layer) # rest) =
     (case map_of new_layer ''p1'' of
        None \<Rightarrow> (Some KeyError, p)
      | Some c1 \<Rightarrow>
          (let n = length (elems c1);
               new_layer1 =
                 (if ''layer'' \<in> set (map fst new_layer) then new_layer
                  else AList.update ''layer''
                         \<lparr>dtype = np_str, elems = replicate n (VStr key), owndata = True\<rparr>
                         new_layer)
           in case fill_beta np p key beta n new_layer1 of
                Inl e \<Rightarrow> (Some e, p)
              | Inr (beta', new_layer2) \<Rightarrow>
                  (case include_columns np p lkey new_layer2 (map fst (layer_info p)) of
                     (Some e, p') \<Rightarrow> (Some e, p')
                   | (None, p') \<Rightarrow>
                       (case contacts p' of
                          None \<Rightarrow> (Some TypeError, p')
                        | Some c \<Rightarrow>
                            (case Contacts_getitem c (StrKey lkey) of
                               Inl e \<Rightarrow> (Some e, p')
                             | Inr l \<Rightarrow>
                                 (case Layer_validate l of
                                    Some e \<Rightarrow> (Some e, p')
                                  | None \<Rightarrow> merge_layers np p' key beta' rest))))))"

text \<open>
  \<open>add_contacts(contacts, key, beta)\<close>. With \<open>key=None\<close> the key is
  \<open>self.contact_keys()[0]\<close>; a layer for \<open>key\<close> is created when \<open>self.contacts\<close> has
  none, before the argument is looked at.
\<close>

definition add_contacts ::
  "'f numpy \<Rightarrow> 'f BasePeople \<Rightarrow> 'f contacts_arg \<Rightarrow> string option \<Rightarrow> 'f option
     \<Rightarrow> 'f BasePeople outcome" where
  "add_contacts np p arg key0 beta0 =
     (case (case key0 of
              Some k \<Rightarrow> Inr k
            | None \<Rightarrow> (case contact_keys p of [] \<Rightarrow> Inl IndexError | k # _ \<Rightarrow> Inr k)) of
        Inl e \<Rightarrow> (Some e, p)
      | Inr key \<Rightarrow>
          (case contacts p of
             None \<Rightarrow> (Some TypeError, p)
           | Some c \<Rightarrow>
               (let p' = (if key \<in> set (map fst c) then p
                          else p\<lparr>contacts :=
                                   Some (AList.update key (Layer_init (layer_info p)) c)\<rparr>)
                in case normalise np p' key arg of
                     Inl e \<Rightarrow> (Some e, p')
                   | Inr new_contacts \<Rightarrow>
                       merge_layers np p' key (map_option VFloat beta0) new_contacts)))"

text \<open>
  \<open>remove_dynamic_contacts(dynamic_keys)\<close>: a key is popped only if it is in
  \<open>pars['contacts']\<close>; \<open>dict.pop\<close> without a default raises \<open>KeyError\<close> for a key the
  dictionary does not have.
\<close>

fun remove_loop :: "'f BasePeople \<Rightarrow> string list \<Rightarrow> 'f BasePeople outcome" where
  "remove_loop p [] = (None, p)"
| "remove_loop p (k # ks) =
     (case pars p of
        None \<Rightarrow> (Some TypeError, p)
      | Some ps \<Rightarrow>
          (case par_contacts ps of
             None \<Rightarrow> (Some KeyError, p)
           | Some configured \<Rightarrow>
               if k \<in> set configured
               then (case contacts p of
                       None \<Rightarrow> (Some AttributeError, p)
                     | Some c \<Rightarrow>
                         if k \<in> set (map fst c)
                         then remove_loop (p\<lparr>contacts := Some (AList.delete k c)\<rparr>) ks
                         else (Some KeyError, p))
               else remove_loop p ks))"

definition remove_dynamic_contacts ::
  "'f BasePeople \<Rightarrow> string one_or_many \<Rightarrow> 'f BasePeople outcome" where
  "remove_dynamic_contacts p dynamic_keys = remove_loop p (promotetolist dynamic_keys)"

section \<open>The population store on a heap\<close>

text \<open>
  Above, a store holds its arrays as values, and a copy is the value again. Whether an
  operation can change an object it was not called on depends on which objects are
  shared, so here objects have addresses: a heap holds the array objects and the
  \<open>BasePeople\<close> objects, and an attribute of a store is bound to the address of its
  array. Addresses from \<open>next_ref\<close> on are unused. (\<open>pars\<close>, \<open>contacts\<close> and
  \<open>transtree\<close> stay values inside the store object: \<open>__add__\<close> does not touch them.)
\<close>

type_synonym ref = nat

record 'f heap =
  arrays :: "ref \<Rightarrow> 'f ndarray"
  objects :: "ref \<Rightarrow> ('f, ref) BasePeople_obj"
  next_ref :: ref

text \<open>A numpy call that returns a new array allocates it.\<close>

definition new_array :: "'f heap \<Rightarrow> 'f ndarray \<Rightarrow> 'f heap \<times> ref" where
  "new_array h a =
     (h\<lparr>arrays := (arrays h)(next_ref h := a), next_ref := Suc (next_ref h)\<rparr>, next_ref h)"

text \<open>
  \<open>sc.dcp(self)\<close>, a deep copy: a new store object whose attributes are bound to new
  arrays with the contents of the old ones, two attributes sharing an array in the copy
  exactly when they do in the original. With \<open>n = next_ref h\<close>, the copy of the array
  at address \<open>r\<close> is put at \<open>n + r\<close> and the new store at \<open>2 * n\<close>.
\<close>

definition deepcopy :: "'f heap \<Rightarrow> ref \<Rightarrow> 'f heap \<times> ref" where
  "deepcopy h self =
     (let n = next_ref h
      in (h\<lparr>arrays := (\<lambda>r. if n \<le> r \<and> r < 2 * n then copy_array (arrays h (r - n))
                            else arrays h r),
            objects := (objects h)
              (2 * n := (objects h self)
                 \<lparr>contacts := copy_contacts (contacts (objects h self)),
                  attrs := (\<lambda>k. map_option (\<lambda>r. n + r) (attrs (objects h self) k))\<rparr>),
            next_ref := Suc (2 * n)\<rparr>,
          2 * n))"

text \<open>
  \<open>set(key, value, die)\<close> on the store at \<open>self\<close>, \<open>value\<close> the address of an array:
  \<open>np.array(value, dtype=...)\<close> makes a new array, to which the attribute is then bound.
\<close>

definition h_set ::
  "'f numpy \<Rightarrow> 'f heap \<Rightarrow> ref \<Rightarrow> string \<Rightarrow> ref \<Rightarrow> bool \<Rightarrow> 'f heap outcome" where
  "h_set np h self key value die =
     (case getitem (objects h self) key of
        Inl e \<Rightarrow> (Some e, h)
      | Inr current \<Rightarrow>
          (case dtypes (objects h self) of
             None \<Rightarrow> (Some AttributeError, h)
           | Some dt \<Rightarrow>
               (case dt key of
                  None \<Rightarrow> (Some KeyError, h)
                | Some d \<Rightarrow>
                    (case np_array np (arrays h value) d of
                       Inl e \<Rightarrow> (Some e, h)
                     | Inr a \<Rightarrow>
                         (case new_array h a of
                            (h', value') \<Rightarrow>
                              if die \<and> length (elems (arrays h' value'))
                                         \<noteq> length (elems (arrays h' current))
                              then (Some IndexError, h')
                              else (case setitem (objects h' self) key value' of
                                      (Some e, _) \<Rightarrow> (Some e, h')
                                    | (None, Typed p') \<Rightarrow>
                                        (None, h'\<lparr>objects := (objects h')(self := p')\<rparr>)
                                    | (None, Rebound p' k v) \<Rightarrow> (Some NotAnArray, h')))))))"

text \<open>
  \<open>resize\<close> and \<open>validate\<close> on the store at \<open>self\<close>. \<open>a.resize(...)\<close> changes the
  array object itself: every store that holds its address sees the new contents.
\<close>

fun h_resize_loop :: "('f::zero) heap \<Rightarrow> ref \<Rightarrow> int \<Rightarrow> string list \<Rightarrow> 'f heap outcome" where
  "h_resize_loop h self n [] = (None, h)"
| "h_resize_loop h self n (key # ks) =
     (case getitem (objects h self) key of
        Inl e \<Rightarrow> (Some e, h)
      | Inr r \<Rightarrow>
          (case np_resize (arrays h r) n of
             Inl e \<Rightarrow> (Some e, h)
           | Inr a' \<Rightarrow> h_resize_loop (h\<lparr>arrays := (arrays h)(r := a')\<rparr>) self n ks))"

definition h_resize ::
  "('f::zero) heap \<Rightarrow> ref \<Rightarrow> int option \<Rightarrow> string one_or_many option \<Rightarrow> 'f heap outcome" where
  "h_resize h self pop_size0 keys0 =
     (case (case pop_size0 of None \<Rightarrow> len (objects h self) | Some n' \<Rightarrow> Inr n') of
        Inl e \<Rightarrow> (Some e, h)
      | Inr n \<Rightarrow>
          (let h' = h\<lparr>objects := (objects h)(self := (objects h self)\<lparr>pop_size := n\<rparr>)\<rparr>;
               ks = (case keys0 of None \<Rightarrow> keys (objects h' self) | Some k \<Rightarrow> promotetolist k)
           in h_resize_loop h' self n ks))"

fun h_validate_loop ::
  "('f::zero) heap \<Rightarrow> ref \<Rightarrow> bool \<Rightarrow> int \<Rightarrow> string list \<Rightarrow> 'f heap outcome" where
  "h_validate_loop h self die expected_len [] = (None, h)"
| "h_validate_loop h self die expected_len (key # ks) =
     (case getitem (objects h self) key of
        Inl e \<Rightarrow> (Some e, h)
      | Inr r \<Rightarrow>
          if int (length (elems (arrays h r))) \<noteq> expected_len
          then (if die then (Some IndexError, h)
                else (case h_resize h self None (Some (One key)) of
                        (Some e, h') \<Rightarrow> (Some e, h')
                      | (None, h') \<Rightarrow> h_validate_loop h' self die expected_len ks))
          else h_validate_loop h self die expected_len ks)"

definition h_validate :: "('f::zero) heap \<Rightarrow> ref \<Rightarrow> bool \<Rightarrow> 'f heap outcome" where
  "h_validate h self die =
     (case len (objects h self) of
        Inl e \<Rightarrow> (Some e, h)
      | Inr expected_len \<Rightarrow>
          h_validate_loop h self die expected_len (keys (objects h self)))"

text \<open>
  \<open>__add__\<close> on the stores at \<open>self\<close> and \<open>people2\<close>, which may be one and the same
  object. It returns the exception, if any, the heap, and the address of \<open>newpeople\<close>.
\<close>

fun h_add_loop ::
  "'f numpy \<Rightarrow> 'f heap \<Rightarrow> ref \<Rightarrow> ref \<Rightarrow> string list \<Rightarrow> 'f heap outcome" where
  "h_add_loop np h newpeople people2 [] = (None, h)"
| "h_add_loop np h newpeople people2 (key # ks) =
     (case getitem (objects h newpeople) key of
        Inl e \<Rightarrow> (Some e, h)
      | Inr a \<Rightarrow>
          (case getitem (objects h people2) key of
             Inl e \<Rightarrow> (Some e, h)
           | Inr b \<Rightarrow>
               (case np_concatenate np (arrays h a) (arrays h b) of
                  Inl e \<Rightarrow> (Some e, h)
                | Inr ab \<Rightarrow>
                    (case new_array h ab of
                       (h1, c) \<Rightarrow>
                         (case h_set np h1 newpeople key c False of
                            (Some e, h2) \<Rightarrow> (Some e, h2)
                          | (None, h2) \<Rightarrow> h_add_loop np h2 newpeople people2 ks)))))"

definition h_add ::
  "('f::zero) numpy \<Rightarrow> 'f heap \<Rightarrow> ref \<Rightarrow> ref \<Rightarrow> error option \<times> 'f heap \<times> ref" where
  "h_add np h self people2 =
     (case deepcopy h self of
        (h0, newpeople) \<Rightarrow>
          (case h_add_loop np h0 newpeople people2 (keys (objects h0 self)) of
             (Some e, h1) \<Rightarrow> (Some e, h1, newpeople)
           | (None, h1) \<Rightarrow>
               (let h2 = h1\<lparr>objects := (objects h1)
                             (newpeople := (objects h1 newpeople)
                                \<lparr>pop_size := pop_size (objects h1 newpeople)
                                               + pop_size (objects h1 people2)\<rparr>)\<rparr>
                in case h_validate h2 newpeople True of
                     (Some e, h3) \<Rightarrow> (Some e, h3, newpeople)
                   | (None, h3) \<Rightarrow>
                       (case len (objects h3 newpeople) of
                          Inl e \<Rightarrow> (Some e, h3, newpeople)
                        | Inr n \<Rightarrow>
                            (case new_array h3 (np_arange n) of
                               (h4, r) \<Rightarrow>
                                 (case h_set np h4 newpeople ''uid'' r True of
                                    (e, h5) \<Rightarrow> (e, h5, newpeople)))))))"

text \<open>
  The store at an address as a value: every attribute with the contents of its array.
\<close>

definition view :: "'f heap \<Rightarrow> ref \<Rightarrow> 'f BasePeople" where
  "view h r =
     \<lparr>pars = pars (objects h r), pop_size = pop_size (objects h r),
      cur_t = cur_t (objects h r), lock = lock (objects h r),
      default_dtype = default_dtype (objects h r), keylist = keylist (objects h r),
      layer_info = layer_info (objects h r), contacts = contacts (objects h r),
      transtree = transtree (objects h r), dtypes = dtypes (objects h r),
      attrs = (\<lambda>k. map_option (arrays h) (attrs (objects h r) k))\<rparr>"

text \<open>
  \<open>allocated h p\<close>: the store at \<open>p\<close> and the arrays of its attributes are objects
  of the heap. \<open>agree n h h'\<close>: the two heaps hold the same arrays and stores at every
  address below \<open>n\<close>. \<open>fresh_attrs n h p\<close>: no attribute of the store at \<open>p\<close> is bound to
  an array at an address below \<open>n\<close>.
\<close>

definition allocated :: "'f heap \<Rightarrow> ref \<Rightarrow> bool" where
  "allocated h p \<longleftrightarrow>
     p < next_ref h \<and> (\<forall>key r. attrs (objects h p) key = Some r \<longrightarrow> r < next_ref h)"

definition agree :: "ref \<Rightarrow> 'f heap \<Rightarrow> 'f heap \<Rightarrow> bool" where
  "agree n h h' \<longleftrightarrow> (\<forall>r<n. arrays h' r = arrays h r \<and> objects h' r = objects h r)"

definition fresh_attrs :: "ref \<Rightarrow> 'f heap \<Rightarrow> ref \<Rightarrow> bool" where
  "fresh_attrs n h p \<longleftrightarrow> (\<forall>key r. attrs (objects h p) key = Some r \<longrightarrow> n \<le> r)"

section \<open>Well-formed stores\<close>

text \<open>
  The conditions under which the properties below are stated. \<open>has_arrays\<close>: every
  key of \<open>keys()\<close> is bound to an array (and is none of the names \<open>__init__\<close> binds).
  \<open>valid_people\<close>: moreover each of these arrays has \<open>pop_size\<close> elements.
  \<open>resizable\<close>: each of these arrays that does not have \<open>pop_size\<close> elements owns
  its memory. \<open>conforms dt ks p\<close>: in \<open>p\<close> every key of \<open>ks\<close> is bound to an array
  of \<open>pop_size\<close> elements whose dtype is the one \<open>dt\<close> declares for the key.
\<close>

definition has_arrays :: "'f BasePeople \<Rightarrow> bool" where
  "has_arrays p \<longleftrightarrow>
     list_all (\<lambda>key. key \<notin> set (base_attrs p) \<and> attrs p key \<noteq> None) (keys p)"

definition valid_people :: "'f BasePeople \<Rightarrow> bool" where
  "valid_people p \<longleftrightarrow>
     list_all (\<lambda>key. key \<notin> set (base_attrs p)
                 \<and> (case attrs p key of
                       None \<Rightarrow> False
                     | Some a \<Rightarrow> int (length (elems a)) = pop_size p)) (keys p)"


definition conforms :: "(string \<rightharpoonup> dtype) \<Rightarrow> string list \<Rightarrow> 'f BasePeople \<Rightarrow> bool" where
  "conforms dt ks p \<longleftrightarrow>
     list_all (\<lambda>key. key \<notin> set (base_attrs p)
                 \<and> (case attrs p key of
                       None \<Rightarrow> False
                     | Some a \<Rightarrow>
                         int (length (elems a)) = pop_size p \<and> dt key = Some (dtype a))) ks"

text \<open>The array of \<open>A\<close> followed by the array of \<open>B\<close>, for a key both stores have.\<close>

definition joined :: "'f BasePeople \<Rightarrow> 'f BasePeople \<Rightarrow> string \<rightharpoonup> 'f ndarray" where
  "joined A B key =
     (case (attrs A key, attrs B key) of
        (Some a, Some b) \<Rightarrow> Some \<lparr>dtype = dtype a, elems = elems a @ elems b, owndata = True\<rparr>
      | _ \<Rightarrow> None)"

section \<open>Concrete inputs\<close>

text \<open>An edge table with a mirrored pair, a self-pair and one more edge.\<close>

definition edges0 :: "string edge list" where
  "edges0 = [\<lparr>p1 = 2, p2 = 0, other = ''a''\<rparr>, \<lparr>p1 = 0, p2 = 2, other = ''b''\<rparr>,
             \<lparr>p1 = 1, p2 = 1, other = ''c''\<rparr>, \<lparr>p1 = 0, p2 = 1, other = ''d''\<rparr>]"

text \<open>
  A small schema, parameter dictionary and numpy conversion, and two stores over them:
  \<open>fresh_people\<close> is what \<open>__init__\<close> returns for three people, \<open>people3\<close> a store of
  three people with its arrays and dtypes assigned and its lock set.
\<close>

definition kl0 :: PeopleKeys where
  "kl0 = \<lparr>all_states = [''uid'', ''age'', ''susceptible''],
          kl_contacts = [(''p1'', np_int32), (''p2'', np_int32), (''beta'', np_float32),
                         (''layer'', np_str)]\<rparr>"

definition pars0 :: "real pars_dict" where
  "pars0 = \<lparr>par_pop_size = Some 3, par_beta_layer = Some [(''h'', 1)],
            par_contacts = Some [''h'']\<rparr>"

definition np0 :: "real numpy" where
  "np0 = \<lparr>conv = (\<lambda>d v. if d = np_bool then Inr (VBool (truthy v))
                          else if d \<in> {np_str, np_object} then Inr v
                          else (case v of VStr s \<Rightarrow> Inl ValueError | _ \<Rightarrow> Inr v)),
          result_type = (\<lambda>a b. Inr (if a = np_bool then b else a))\<rparr>"

definition fresh_people :: "real BasePeople" where
  "fresh_people =
     \<lparr>pars = Some pars0, pop_size = 3, cur_t = 0, lock = False,
      default_dtype = np_float32, keylist = kl0, layer_info = kl_contacts kl0,
      contacts = Some [(''h'', Layer_init (kl_contacts kl0))],
      transtree = \<lparr>sources = [None, None, None], targets = [[], [], []]\<rparr>,
      dtypes = None, attrs = Map.empty\<rparr>"

definition uid3 :: "real ndarray" where
  "uid3 = \<lparr>dtype = np_int64, elems = [VInt 0, VInt 1, VInt 2], owndata = True\<rparr>"

definition age3 :: "real ndarray" where
  "age3 = \<lparr>dtype = np_float32, elems = [VFloat 30, VFloat 41, VFloat 52], owndata = True\<rparr>"

definition susceptible3 :: "real ndarray" where
  "susceptible3 =
     \<lparr>dtype = np_bool, elems = [VBool True, VBool False, VBool True], owndata = True\<rparr>"

definition dtypes0 :: "string \<rightharpoonup> dtype" where
  "dtypes0 = [''uid'' \<mapsto> np_int64, ''age'' \<mapsto> np_float32, ''susceptible'' \<mapsto> np_bool]"

definition people3 :: "real BasePeople" where
  "people3 =
     fresh_people\<lparr>lock := True, dtypes := Some dtypes0,
                  attrs := [''uid'' \<mapsto> uid3, ''age'' \<mapsto> age3,
                            ''susceptible'' \<mapsto> susceptible3]\<rparr>"

text \<open>
  Arrays of two and of four elements, and a store whose \<open>age\<close> and \<open>susceptible\<close>
  arrays do not have \<open>pop_size = 3\<close> elements. \<open>people_short\<close> is \<open>people3\<close> after
  \<open>set('age', short2, die=False)\<close>. \<open>names2\<close> holds strings, which \<open>np0\<close> does not
  convert to numbers. \<open>view2\<close> is a view of two elements on the memory of another
  array, as \<open>ages[:2]\<close> is, and \<open>people_view\<close> a store of three people whose \<open>age\<close>
  is bound to it.
\<close>

definition short2 :: "real ndarray" where
  "short2 = \<lparr>dtype = np_float32, elems = [VFloat 1, VFloat 2], owndata = True\<rparr>"



definition people_short :: "real BasePeople" where
  "people_short =
     people3\<lparr>attrs := [''uid'' \<mapsto> uid3, ''age'' \<mapsto> short2,
                        ''susceptible'' \<mapsto> susceptible3]\<rparr>"

definition pair2 :: "real ndarray" where
  "pair2 = \<lparr>dtype = np_float32, elems = [VFloat 7, VFloat 8], owndata = True\<rparr>"

definition names2 :: "real ndarray" where
  "names2 = \<lparr>dtype = np_str, elems = [VStr ''a'', VStr ''b''], owndata = True\<rparr>"



text \<open>
  A store with a household layer \<open>'h'\<close> and a dynamic layer \<open>'c'\<close>, of which only
  \<open>'h'\<close> is listed in \<open>pars['contacts']\<close>; and the contacts of three people, person 0
  in contact with 1 and 2.
\<close>

definition contacts_dyn :: "real Contacts" where
  "contacts_dyn =
     [(''h'', Layer_init (kl_contacts kl0)), (''c'', Layer_init (kl_contacts kl0))]"

definition people_dyn :: "real BasePeople" where
  "people_dyn = people3\<lparr>contacts := Some contacts_dyn\<rparr>"

definition adj0 :: "(string \<times> int list) list list" where
  "adj0 = [[(''h'', [1, 2])], [(''h'', [0])], [(''h'', [0])]]"

text \<open>
  A heap with the three arrays of \<open>people3\<close> at the addresses 0, 1, 2 and the store
  itself at 3.
\<close>

definition obj3 :: "(real, ref) BasePeople_obj" where
  "obj3 =
     \<lparr>pars = Some pars0, pop_size = 3, cur_t = 0, lock = True,
      default_dtype = np_float32, keylist = kl0, layer_info = kl_contacts kl0,
      contacts = Some [(''h'', Layer_init (kl_contacts kl0))],
      transtree = \<lparr>sources = [None, None, None], targets = [[], [], []]\<rparr>,
      dtypes = Some dtypes0,
      attrs = [''uid'' \<mapsto> 0, ''age'' \<mapsto> 1, ''susceptible'' \<mapsto> 2]\<rparr>"

definition heap0 :: "real heap" where
  "heap0 =
     \<lparr>arrays = (\<lambda>r. np_empty np_float64)(0 := uid3, 1 := age3, 2 := susceptible3),
      objects = (\<lambda>r. obj3),
      next_ref = 4\<rparr>"

section \<open>Properties of \<open>remove_duplicates\<close>\<close>

lemma drop_duplicates_subset: "set (drop_duplicates rs) \<subseteq> set rs"
  by (induction rs rule: drop_duplicates.induct) auto

lemma drop_duplicates_keys: "endpoints ` set (drop_duplicates rs) = endpoints ` set rs"
  by (induction rs rule: drop_duplicates.induct) (auto simp: image_iff)

lemma drop_duplicates_distinct: "distinct (map endpoints (drop_duplicates rs))"
proof (induction rs rule: drop_duplicates.induct)
  case 1
  show ?case by simp
next
  case (2 r rs)
  have "endpoints r
      \<notin> endpoints ` set (drop_duplicates (filter (\<lambda>s. endpoints s \<noteq> endpoints r) rs))"
    unfolding drop_duplicates_keys by auto
  with 2 show ?case by simp
qed

lemma drop_duplicates_sorted:
  "sorted (map endpoints rs) \<Longrightarrow> sorted (map endpoints (drop_duplicates rs))"
proof (induction rs rule: drop_duplicates.induct)
  case 1
  show ?case by simp
next
  case (2 r rs)
  let ?rs' = "filter (\<lambda>s. endpoints s \<noteq> endpoints r) rs"
  from 2(2) have s: "sorted (map endpoints rs)"
    and le: "\<forall>s\<in>set rs. endpoints r \<le> endpoints s"
    by auto
  from s have "sorted (map endpoints ?rs')"
    by (rule sorted_filter)
  then have "sorted (map endpoints (drop_duplicates ?rs'))"
    by (rule 2(1))
  moreover have "\<forall>s\<in>set (drop_duplicates ?rs'). endpoints r \<le> endpoints s"
    using le drop_duplicates_subset by fastforce
  ultimately show ?case by simp
qed

lemma drop_duplicates_id: "distinct (map endpoints rs) \<Longrightarrow> drop_duplicates rs = rs"
proof (induction rs)
  case Nil
  show ?case by simp
next
  case (Cons r rs)
  then have "filter (\<lambda>s. endpoints s \<noteq> endpoints r) rs = rs"
    by (auto simp: filter_id_conv image_iff)
  with Cons show ?case by simp
qed

lemma reassign_le: "p1 (reassign r) \<le> p2 (reassign r)"
  by (simp add: reassign_def)

lemma reassign_id: "p1 r \<le> p2 r \<Longrightarrow> reassign r = r"
  by (simp add: reassign_def min_def max_def)

lemma unordered_reassign: "unordered (reassign r) = unordered r"
  by (auto simp: unordered_def reassign_def min_def max_def)

lemma unordered_inj:
  "p1 r \<le> p2 r \<Longrightarrow> p1 s \<le> p2 s \<Longrightarrow> unordered r = unordered s
     \<Longrightarrow> endpoints r = endpoints s"
  by (auto simp: unordered_def endpoints_def doubleton_eq_iff)

lemma remove_duplicates_less: "r \<in> set (remove_duplicates df) \<Longrightarrow> p1 r < p2 r"
proof -
  assume "r \<in> set (remove_duplicates df)"
  then have ne: "p1 r \<noteq> p2 r"
    and "r \<in> set (drop_duplicates (sort_values (map reassign df)))"
    by (auto simp: remove_duplicates_def)
  then have "r \<in> set (sort_values (map reassign df))"
    using drop_duplicates_subset by blast
  then have "r \<in> reassign ` set df"
    by (simp add: sort_values_def)
  then have "p1 r \<le> p2 r"
    using reassign_le by auto
  with ne show ?thesis by simp
qed

lemma remove_duplicates_sorted: "sorted (map endpoints (remove_duplicates df))"
  unfolding remove_duplicates_def
  by (intro sorted_filter drop_duplicates_sorted) (simp add: sort_values_def)

lemma remove_duplicates_distinct: "distinct (map endpoints (remove_duplicates df))"
  unfolding remove_duplicates_def
  by (rule distinct_map_filter) (rule drop_duplicates_distinct)

lemma remove_duplicates_idem:
  "remove_duplicates (remove_duplicates df) = remove_duplicates df"
proof -
  let ?R = "remove_duplicates df"
  have 1: "map reassign ?R = ?R"
    by (rule map_idI) (simp add: reassign_id less_imp_le remove_duplicates_less)
  have 2: "sort_values ?R = ?R"
    unfolding sort_values_def
    by (rule sort_key_id_if_sorted) (rule remove_duplicates_sorted)
  have 3: "drop_duplicates ?R = ?R"
    by (rule drop_duplicates_id) (rule remove_duplicates_distinct)
  have 4: "filter (\<lambda>r. p1 r \<noteq> p2 r) ?R = ?R"
    by (auto simp: filter_id_conv dest: remove_duplicates_less)
  have "remove_duplicates ?R
      = filter (\<lambda>r. p1 r \<noteq> p2 r) (drop_duplicates (sort_values (map reassign ?R)))"
    by (simp only: remove_duplicates_def)
  then show ?thesis by (simp only: 1 2 3 4)
qed

lemma remove_duplicates_distinct_unordered:
  "distinct (map unordered (remove_duplicates df))"
proof -
  let ?R = "remove_duplicates df"
  have d: "distinct ?R" and i: "inj_on endpoints (set ?R)"
    using remove_duplicates_distinct [of df] by (simp_all add: distinct_map)
  have "inj_on unordered (set ?R)"
  proof (rule inj_onI)
    fix r s
    assume r: "r \<in> set ?R" and s: "s \<in> set ?R" and e: "unordered r = unordered s"
    from r s have "p1 r \<le> p2 r" "p1 s \<le> p2 s"
      by (simp_all add: less_imp_le remove_duplicates_less)
    with e have "endpoints r = endpoints s"
      by (rule unordered_inj [rotated 2])
    with i r s show "r = s"
      by (simp add: inj_on_def)
  qed
  with d show ?thesis by (simp add: distinct_map)
qed

text \<open>
  What survives: exactly the unordered pairs of the rows of \<open>df\<close> that are not
  self-pairs.
\<close>

lemma remove_duplicates_edges:
  "unordered ` set (remove_duplicates df)
     = {unordered r | r. r \<in> set df \<and> p1 r \<noteq> p2 r}"
  (is "?L = ?R")
proof (rule set_eqI, rule iffI)
  fix e
  assume "e \<in> ?L"
  then obtain r where r: "r \<in> set (remove_duplicates df)" and e: "e = unordered r"
    by auto
  from r have ne: "p1 r \<noteq> p2 r"
    and "r \<in> set (drop_duplicates (sort_values (map reassign df)))"
    by (auto simp: remove_duplicates_def)
  then have "r \<in> set (sort_values (map reassign df))"
    using drop_duplicates_subset by blast
  then obtain r0 where r0: "r0 \<in> set df" and rr: "r = reassign r0"
    by (auto simp: sort_values_def)
  from ne rr have "p1 r0 \<noteq> p2 r0"
    by (auto simp: reassign_def min_def max_def split: if_splits)
  moreover from e rr have "e = unordered r0"
    by (simp add: unordered_reassign)
  ultimately show "e \<in> ?R"
    using r0 by blast
next
  fix e
  assume "e \<in> ?R"
  then obtain r0 where r0: "r0 \<in> set df" and ne: "p1 r0 \<noteq> p2 r0" and e: "e = unordered r0"
    by auto
  let ?S = "sort_values (map reassign df)"
  from r0 have "endpoints (reassign r0) \<in> endpoints ` set ?S"
    by (simp add: sort_values_def)
  then have "endpoints (reassign r0) \<in> endpoints ` set (drop_duplicates ?S)"
    by (simp only: drop_duplicates_keys)
  then obtain s where s: "s \<in> set (drop_duplicates ?S)"
    and es: "endpoints s = endpoints (reassign r0)"
    by auto
  from es ne have "p1 s \<noteq> p2 s"
    by (auto simp: endpoints_def reassign_def min_def max_def split: if_splits)
  with s have "s \<in> set (remove_duplicates df)"
    by (simp add: remove_duplicates_def)
  moreover from es have "unordered s = unordered (reassign r0)"
    by (simp add: endpoints_def unordered_def)
  ultimately show "e \<in> ?L"
    using e by (auto simp: unordered_reassign)
qed

text \<open>
  Claim C3. For every edge table, \<open>remove_duplicates\<close> is idempotent (a second
  application returns the table of the first); its result has no row with
  \<open>p1 = p2\<close>, no two rows with the same unordered pair of endpoints, every row has
  \<open>p1 \<le> p2\<close>, and the rows are sorted by \<open>(p1, p2)\<close>.
\<close>

theorem remove_duplicates_idempotent_canonical:
  "remove_duplicates (remove_duplicates df) = remove_duplicates df
   \<and> (\<forall>r \<in> set (remove_duplicates df). p1 r \<noteq> p2 r \<and> p1 r \<le> p2 r)
   \<and> distinct (map unordered (remove_duplicates df))
   \<and> sorted (map endpoints (remove_duplicates df))"
proof -
  have "\<forall>r \<in> set (remove_duplicates df). p1 r \<noteq> p2 r \<and> p1 r \<le> p2 r"
    using remove_duplicates_less [of _ df] by fastforce
  then show ?thesis
    using remove_duplicates_idem [of df] remove_duplicates_distinct_unordered [of df]
      remove_duplicates_sorted [of df]
    by blast
qed

theorem remove_duplicates_idempotent_canonical_witness:
  "remove_duplicates edges0
     = [\<lparr>p1 = 0, p2 = 1, other = ''d''\<rparr>, \<lparr>p1 = 0, p2 = 2, other = ''a''\<rparr>]
   \<and> remove_duplicates (remove_duplicates edges0) = remove_duplicates edges0
   \<and> list_all (\<lambda>r. p1 r \<noteq> p2 r \<and> p1 r \<le> p2 r) (remove_duplicates edges0)
   \<and> distinct (map unordered (remove_duplicates edges0))
   \<and> sorted (map endpoints (remove_duplicates edges0))"
proof -
  have "remove_duplicates edges0
      = [\<lparr>p1 = 0, p2 = 1, other = ''d''\<rparr>, \<lparr>p1 = 0, p2 = 2, other = ''a''\<rparr>]"
    by (simp add: remove_duplicates_def edges0_def sort_values_def reassign_def
          endpoints_def)
  then show ?thesis
    using remove_duplicates_idempotent_canonical [of edges0]
    by (simp add: list_all_iff)
qed

section \<open>Properties of \<open>__init__\<close> and item assignment\<close>

lemma init_contacts_frame:
  "pop_size (snd (init_contacts p output keys0)) = pop_size p"
  "transtree (snd (init_contacts p output keys0)) = transtree p"
  "lock (snd (init_contacts p output keys0)) = lock p"
  "attrs (snd (init_contacts p output keys0)) = attrs p"
  "dtypes (snd (init_contacts p output keys0)) = dtypes p"
  by (simp_all add: init_contacts_def Let_def split: option.splits)

lemma targets_replicate: "map (\<lambda>p. []) [0..<k] = replicate k []"
  by (simp add: map_replicate_const)


text \<open>
  Claim C9. For every population size \<open>n \<ge> 0\<close>, \<open>__init__\<close> with that size returns a
  store whose transmission tree has \<open>sources\<close> and \<open>targets\<close> of length \<open>n\<close>, every
  source \<open>None\<close> and every target the empty list.
\<close>

theorem init_transtree:
  assumes "0 \<le> n"
  shows "\<exists>p. init kl prs (Some n) = Inr p \<and> pop_size p = n
           \<and> int (length (sources (transtree p))) = n
           \<and> int (length (targets (transtree p))) = n
           \<and> sources (transtree p) = replicate (nat n) None
           \<and> targets (transtree p) = replicate (nat n) []"
  using assms
  by (simp add: init_def init_contacts_frame TransTree_init_def targets_replicate)

theorem init_transtree_witness:
  "(0::int) \<le> 3
   \<and> (\<exists>p. init kl0 (Some pars0) (Some 3) = Inr p \<and> pop_size p = 3
          \<and> sources (transtree p) = [None, None, None]
          \<and> targets (transtree p) = [[], [], []])"
  using init_transtree [of 3 kl0 "Some pars0"]
  by (auto simp: numeral_3_eq_3)

text \<open>The size may also come from \<open>pars['pop_size']\<close>.\<close>

lemma init_from_pars:
  assumes "par_pop_size ps = Some n"
  shows "\<exists>p. init kl (Some ps) None = Inr p \<and> pop_size p = n
           \<and> sources (transtree p) = replicate (nat n) None
           \<and> targets (transtree p) = replicate (nat n) []"
  using assms
  by (simp add: init_def init_contacts_frame TransTree_init_def targets_replicate)


lemma base_attrs_update [simp]:
  "base_attrs (p\<lparr>attrs := x\<rparr>) = base_attrs p"
  "base_attrs (p\<lparr>pop_size := n\<rparr>) = base_attrs p"
  "base_attrs (p\<lparr>contacts := c\<rparr>) = base_attrs p"
  by (simp_all add: base_attrs_def)

lemma getitem_Inr_iff:
  "getitem p key = Inr a \<longleftrightarrow> key \<notin> set (base_attrs p) \<and> attrs p key = Some a"
  by (auto simp: getitem_def split: option.splits)

lemma getitem_Inr_I:
  "key \<notin> set (base_attrs p) \<Longrightarrow> attrs p key = Some a \<Longrightarrow> getitem p key = Inr a"
  by (simp add: getitem_def)

lemma getitem_other:
  "k \<noteq> key \<Longrightarrow> getitem (p\<lparr>attrs := (attrs p)(key \<mapsto> v)\<rparr>) k = getitem p k"
  by (simp add: getitem_def)

lemma setitem_existing:
  "getitem p key = Inr a
     \<Longrightarrow> setitem p key v = (None, Typed (p\<lparr>attrs := (attrs p)(key \<mapsto> v)\<rparr>))"
  by (auto simp: setitem_def in_dict_def getitem_Inr_iff)






section \<open>Properties of \<open>set\<close> and \<open>validate\<close>\<close>

lemma convert_length: "convert f xs = Inr ys \<Longrightarrow> length ys = length xs"
  by (induction xs arbitrary: ys) (auto split: sum.splits)

lemma np_array_length:
  "np_array np value d = Inr value' \<Longrightarrow> length (elems value') = length (elems value)"
  by (auto simp: np_array_def convert_length split: if_splits sum.splits)

lemma np_array_same: "dtype a = d \<Longrightarrow> np_array np a d = Inr (a\<lparr>owndata := True\<rparr>)"
  by (simp add: np_array_def)

lemma set_key_error:
  assumes "getitem p key = Inr current" and "dtypes p = Some dt" and "dt key = Some d"
    and "np_array np value d = Inl e"
  shows "set_key np p key value die = (Some e, p)"
  by (simp add: set_key_def assms)

lemma set_key_general:
  assumes "getitem p key = Inr current" and "dtypes p = Some dt" and "dt key = Some d"
    and "np_array np value d = Inr value'"
  shows "length (elems value') \<noteq> length (elems current)
           \<Longrightarrow> set_key np p key value True = (Some IndexError, p)"
    and "set_key np p key value False = (None, p\<lparr>attrs := (attrs p)(key \<mapsto> value')\<rparr>)"
    and "length (elems value') = length (elems current)
           \<Longrightarrow> set_key np p key value True
           = (None, p\<lparr>attrs := (attrs p)(key \<mapsto> value')\<rparr>)"
  by (simp_all add: set_key_def assms setitem_existing [OF assms(1)])

lemma valid_people_iff:
  "valid_people p \<longleftrightarrow> (\<forall>key \<in> set (keys p). key \<notin> set (base_attrs p)
      \<and> (case attrs p key of None \<Rightarrow> False | Some a \<Rightarrow> int (length (elems a)) = pop_size p))"
  by (simp add: valid_people_def list_all_iff)



lemma conforms_iff:
  "conforms dt ks p \<longleftrightarrow> (\<forall>key \<in> set ks. key \<notin> set (base_attrs p)
      \<and> (\<exists>a. attrs p key = Some a \<and> int (length (elems a)) = pop_size p
               \<and> dt key = Some (dtype a)))"
  by (auto simp: conforms_def list_all_iff split: option.splits)

lemma valid_people_getitem:
  "valid_people p \<Longrightarrow> key \<in> set (keys p)
     \<Longrightarrow> \<exists>a. getitem p key = Inr a \<and> int (length (elems a)) = pop_size p"
  by (auto simp: valid_people_def list_all_iff getitem_Inr_iff split: option.splits)

lemma people3_simps:
  "dtypes people3 = Some dtypes0" "keys people3 = [''uid'', ''age'', ''susceptible'']"
  "pop_size people3 = 3" "lock people3"
  "base_attrs people3 = [''pars'', ''pop_size'', ''t'', ''_lock'', ''_default_dtype'', ''keylist'',
      ''layer_info'', ''contacts'', ''transtree'', ''_dtypes'']"
  "attrs people3 = [''uid'' \<mapsto> uid3, ''age'' \<mapsto> age3, ''susceptible'' \<mapsto> susceptible3]"
  "pars people3 = Some pars0"
  by (simp_all add: people3_def fresh_people_def keys_def kl0_def base_attrs_def)

lemma people3_valid:
  "valid_people people3" "has_arrays people3" "conforms dtypes0 (keys people3) people3"
  by (simp_all add: valid_people_def has_arrays_def conforms_def people3_simps uid3_def
        age3_def susceptible3_def dtypes0_def)

lemma people_short_simps:
  "dtypes people_short = Some dtypes0" "pop_size people_short = 3"
  "getitem people_short ''age'' = Inr short2"
  "people_short = people3\<lparr>attrs := (attrs people3)(''age'' \<mapsto> short2)\<rparr>"
  by (simp_all add: people_short_def people3_simps getitem_def fun_eq_iff)

text \<open>
  Claim C4, as stated, fails in both halves. \<open>set\<close> compares the length of the new
  array with the length of the array the name is bound to, not with \<open>pop_size\<close>: after
  \<open>set('age', short2, die=False)\<close> on a store of three people, \<open>'age'\<close> holds two
  elements, and \<open>set('age', pair2)\<close> with two elements and without the override
  succeeds, although \<open>pop_size\<close> is three. And a value that numpy cannot convert to the
  declared dtype raises numpy's exception before any length is looked at: with the
  override, \<open>set('age', names2, die=False)\<close> raises \<open>ValueError\<close>.
\<close>

theorem set_key_counterexample:
  "valid_people people3
   \<and> set_key np0 people3 ''age'' short2 False = (None, people_short)
   \<and> int (length (elems pair2)) \<noteq> pop_size people_short
   \<and> fst (set_key np0 people_short ''age'' pair2 True) = None
   \<and> getitem (snd (set_key np0 people_short ''age'' pair2 True)) ''age'' = Inr pair2
   \<and> int (length (elems names2)) \<noteq> pop_size people3
   \<and> set_key np0 people3 ''age'' names2 False = (Some ValueError, people3)"
proof -
  have g: "getitem people3 ''age'' = Inr age3" and d: "dtypes0 ''age'' = Some np_float32"
    by (simp_all add: getitem_def people3_simps dtypes0_def)
  have "np_array np0 short2 np_float32 = Inr short2"
    by (simp add: np_array_def short2_def)
  with g people3_simps(1) d
  have 1: "set_key np0 people3 ''age'' short2 False = (None, people_short)"
    by (simp add: set_key_general(2) people_short_simps(4))
  have "np_array np0 pair2 np_float32 = Inr pair2"
    by (simp add: np_array_def pair2_def)
  with people_short_simps d
  have "set_key np0 people_short ''age'' pair2 True
      = (None, people_short\<lparr>attrs := (attrs people_short)(''age'' \<mapsto> pair2)\<rparr>)"
    by (simp add: set_key_general(3) pair2_def short2_def)
  then have 2: "fst (set_key np0 people_short ''age'' pair2 True) = None"
    "getitem (snd (set_key np0 people_short ''age'' pair2 True)) ''age'' = Inr pair2"
    by (simp_all add: getitem_def people_short_def people3_simps)
  have "np_array np0 names2 np_float32 = Inl ValueError"
    by (simp add: np_array_def names2_def np0_def)
  with g people3_simps(1) d
  have 3: "set_key np0 people3 ''age'' names2 False = (Some ValueError, people3)"
    by (simp add: set_key_error)
  from 1 2 3 people3_valid(1) show ?thesis
    by (simp add: pair2_def names2_def people_short_simps people3_simps)
qed

text \<open>
  Claim C4, amended. Let \<open>key\<close> be bound to the array \<open>current\<close> and have the declared
  dtype \<open>d\<close>. \<open>set(key, value, die)\<close> first converts \<open>value\<close> to \<open>d\<close>; when numpy
  raises there, \<open>set\<close> raises the same exception and the store is as it was, whatever
  \<open>die\<close>. Otherwise the converted array has the length of \<open>value\<close>, and this length is
  compared with the length of \<open>current\<close>: when they differ, \<open>set\<close> with \<open>die=True\<close>
  raises \<open>IndexError\<close> and the store is as it was; when they are equal, or with
  \<open>die=False\<close>, \<open>set\<close> returns, \<open>key\<close> is bound to the converted array, and no other
  name and not \<open>pop_size\<close> has changed. The length of \<open>current\<close> is \<open>pop_size\<close> when
  \<open>key\<close> is a key of a store whose arrays all have \<open>pop_size\<close> elements.
\<close>

theorem set_key_length_check:
  assumes "getitem p key = Inr current" and "dtypes p = Some dt" and "dt key = Some d"
  shows "(\<forall>e. np_array np value d = Inl e \<longrightarrow> set_key np p key value die = (Some e, p))
       \<and> (\<forall>value'. np_array np value d = Inr value' \<longrightarrow>
            length (elems value') = length (elems value)
            \<and> (length (elems value) \<noteq> length (elems current)
                 \<longrightarrow> set_key np p key value True = (Some IndexError, p))
            \<and> (length (elems value) = length (elems current) \<or> \<not> die
                 \<longrightarrow> (\<exists>p'. set_key np p key value die = (None, p')
                        \<and> getitem p' key = Inr value'
                        \<and> (\<forall>k. k \<noteq> key \<longrightarrow> getitem p' k = getitem p k)
                        \<and> pop_size p' = pop_size p)))
       \<and> (valid_people p \<and> key \<in> set (keys p)
            \<longrightarrow> int (length (elems current)) = pop_size p)"
proof (intro conjI allI impI)
  fix e assume "np_array np value d = Inl e"
  with assms show "set_key np p key value die = (Some e, p)"
    by (rule set_key_error)
next
  fix value' assume "np_array np value d = Inr value'"
  then show "length (elems value') = length (elems value)"
    by (rule np_array_length)
next
  fix value' assume c: "np_array np value d = Inr value'"
    and "length (elems value) \<noteq> length (elems current)"
  then have "length (elems value') \<noteq> length (elems current)"
    by (simp add: np_array_length)
  with assms c show "set_key np p key value True = (Some IndexError, p)"
    by (rule set_key_general(1))
next
  fix value' assume c: "np_array np value d = Inr value'"
    and ok: "length (elems value) = length (elems current) \<or> \<not> die"
  let ?p' = "p\<lparr>attrs := (attrs p)(key \<mapsto> value')\<rparr>"
  from assms(1) have nb: "key \<notin> set (base_attrs p)"
    by (simp add: getitem_Inr_iff)
  have "set_key np p key value die = (None, ?p')"
  proof (cases die)
    case True
    with ok c have "length (elems value') = length (elems current)"
      by (simp add: np_array_length)
    with assms c have "set_key np p key value True = (None, ?p')"
      by (rule set_key_general(3))
    with True show ?thesis by simp
  next
    case False
    from assms c have "set_key np p key value False = (None, ?p')"
      by (rule set_key_general(2))
    with False show ?thesis by simp
  qed
  moreover have "getitem ?p' key = Inr value'"
    using nb by (simp add: getitem_Inr_I)
  moreover have "\<forall>k. k \<noteq> key \<longrightarrow> getitem ?p' k = getitem p k"
    by (simp add: getitem_other)
  ultimately show "\<exists>p'. set_key np p key value die = (None, p')
                        \<and> getitem p' key = Inr value'
                        \<and> (\<forall>k. k \<noteq> key \<longrightarrow> getitem p' k = getitem p k)
                        \<and> pop_size p' = pop_size p"
    by simp
next
  assume "valid_people p \<and> key \<in> set (keys p)"
  then obtain a where "getitem p key = Inr a" "int (length (elems a)) = pop_size p"
    using valid_people_getitem by blast
  with assms(1) show "int (length (elems current)) = pop_size p"
    by simp
qed

theorem set_key_length_check_witness:
  "getitem people3 ''age'' = Inr age3
   \<and> dtypes people3 = Some dtypes0 \<and> dtypes0 ''age'' = Some np_float32
   \<and> np_array np0 names2 np_float32 = Inl ValueError
   \<and> set_key np0 people3 ''age'' names2 True = (Some ValueError, people3)
   \<and> np_array np0 short2 np_float32 = Inr short2
   \<and> length (elems short2) \<noteq> length (elems age3)
   \<and> set_key np0 people3 ''age'' short2 True = (Some IndexError, people3)
   \<and> fst (set_key np0 people3 ''age'' short2 False) = None
   \<and> getitem (snd (set_key np0 people3 ''age'' short2 False)) ''age'' = Inr short2
   \<and> getitem (snd (set_key np0 people3 ''age'' short2 False)) ''uid'' = Inr uid3
   \<and> valid_people people3 \<and> ''age'' \<in> set (keys people3)
   \<and> int (length (elems age3)) = pop_size people3"
proof -
  have h: "getitem people3 ''age'' = Inr age3" "dtypes people3 = Some dtypes0"
    "dtypes0 ''age'' = Some np_float32"
    by (simp_all add: getitem_def people3_simps dtypes0_def)
  have n: "np_array np0 names2 np_float32 = Inl ValueError"
    by (simp add: np_array_def names2_def np0_def)
  have s: "np_array np0 short2 np_float32 = Inr short2"
    by (simp add: np_array_def short2_def)
  have l: "length (elems short2) \<noteq> length (elems age3)"
    by (simp add: short2_def age3_def)
  have v: "valid_people people3 \<and> ''age'' \<in> set (keys people3)"
    by (simp add: people3_valid people3_simps)
  have u: "getitem people3 ''uid'' = Inr uid3"
    by (simp add: getitem_def people3_simps)
  note t1 = set_key_length_check [OF h, of np0 names2 True]
  note t2 = set_key_length_check [OF h, of np0 short2 True]
  note t3 = set_key_length_check [OF h, of np0 short2 False]
  from t1 n have 1: "set_key np0 people3 ''age'' names2 True = (Some ValueError, people3)"
    by blast
  from t2 s l have 2: "set_key np0 people3 ''age'' short2 True = (Some IndexError, people3)"
    by blast
  from t3 s obtain p' where p': "set_key np0 people3 ''age'' short2 False = (None, p')"
    "getitem p' ''age'' = Inr short2" "\<forall>k. k \<noteq> ''age'' \<longrightarrow> getitem p' k = getitem people3 k"
    by blast
  from p'(3) u have "getitem p' ''uid'' = Inr uid3"
    by simp
  with p' have 3: "fst (set_key np0 people3 ''age'' short2 False) = None"
    "getitem (snd (set_key np0 people3 ''age'' short2 False)) ''age'' = Inr short2"
    "getitem (snd (set_key np0 people3 ''age'' short2 False)) ''uid'' = Inr uid3"
    by simp_all
  from t2 v have 4: "int (length (elems age3)) = pop_size people3"
    by blast
  from h n s l v 1 2 3 4 show ?thesis
    by simp
qed





lemma len_nonneg: "0 \<le> pop_size p \<Longrightarrow> len p = Inr (pop_size p)"
  by (simp add: len_def)



lemma validate_loop_strict_ok:
  "\<forall>key \<in> set ks. key \<notin> set (base_attrs p)
      \<and> (case attrs p key of None \<Rightarrow> False | Some a \<Rightarrow> int (length (elems a)) = n)
   \<Longrightarrow> validate_loop p die n ks = (None, p)"
proof (induction ks)
  case Nil
  show ?case by simp
next
  case (Cons key ks)
  then obtain a where "attrs p key = Some a" "int (length (elems a)) = n"
    "key \<notin> set (base_attrs p)"
    by (auto split: option.splits)
  then have "getitem p key = Inr a" "int (length (elems a)) = n"
    by (simp_all add: getitem_Inr_I)
  with Cons show ?case by simp
qed



lemma valid_people_nonneg: "valid_people p \<Longrightarrow> keys p \<noteq> [] \<Longrightarrow> 0 \<le> pop_size p"
  by (cases "keys p") (auto simp: valid_people_iff split: option.splits)

lemma validate_strict_ok:
  "valid_people p \<Longrightarrow> 0 \<le> pop_size p \<Longrightarrow> validate p die = (None, p)"
  by (simp add: validate_def len_nonneg validate_loop_strict_ok valid_people_iff)







section \<open>Properties of \<open>__add__\<close>\<close>

lemma np_concatenate_same:
  "dtype a = dtype b
     \<Longrightarrow> np_concatenate np a b
           = Inr \<lparr>dtype = dtype a, elems = elems a @ elems b, owndata = True\<rparr>"
  by (simp add: np_concatenate_def)

lemma dcp_simps [simp]:
  "pars (dcp p) = pars p" "pop_size (dcp p) = pop_size p" "cur_t (dcp p) = cur_t p"
  "lock (dcp p) = lock p" "default_dtype (dcp p) = default_dtype p"
  "keylist (dcp p) = keylist p" "layer_info (dcp p) = layer_info p"
  "contacts (dcp p) = copy_contacts (contacts p)" "transtree (dcp p) = transtree p"
  "dtypes (dcp p) = dtypes p" "attrs (dcp p) k = map_option copy_array (attrs p k)"
  "base_attrs (dcp p) = base_attrs p" "keys (dcp p) = keys p"
  by (simp_all add: dcp_def keys_def)

lemma copy_array_simps [simp]:
  "dtype (copy_array a) = dtype a" "elems (copy_array a) = elems a"
  "owndata (copy_array a)"
  by (simp_all add: copy_array_def)

lemma joined_dcp: "joined (dcp A) B key = joined A B key"
  by (simp add: joined_def split: option.splits)

lemma add_loop_result:
  "distinct ks \<Longrightarrow> dtypes N = Some dt
   \<Longrightarrow> \<forall>key \<in> set ks. key \<notin> set (base_attrs N) \<and> key \<notin> set (base_attrs B)
         \<and> (\<exists>a b. attrs N key = Some a \<and> attrs B key = Some b
                 \<and> dt key = Some (dtype a) \<and> dtype b = dtype a)
   \<Longrightarrow> add_loop np N B ks
       = (None, N\<lparr>attrs := (\<lambda>k. if k \<in> set ks then joined N B k else attrs N k)\<rparr>)"
proof (induction ks arbitrary: N)
  case Nil
  then show ?case by simp
next
  case (Cons key ks)
  from Cons.prems(3) obtain a b where a: "attrs N key = Some a" and b: "attrs B key = Some b"
    and nbN: "key \<notin> set (base_attrs N)" and nbB: "key \<notin> set (base_attrs B)"
    and d: "dt key = Some (dtype a)" and db: "dtype b = dtype a"
    by auto
  let ?c = "\<lparr>dtype = dtype a, elems = elems a @ elems b, owndata = True\<rparr>"
  let ?N1 = "N\<lparr>attrs := (attrs N)(key \<mapsto> ?c)\<rparr>"
  have gN: "getitem N key = Inr a" and gB: "getitem B key = Inr b"
    using a b nbN nbB by (simp_all add: getitem_Inr_I)
  have cat: "np_concatenate np a b = Inr ?c"
    using db by (simp add: np_concatenate_same)
  have "np_array np ?c (dtype a) = Inr ?c"
    by (simp add: np_array_same)
  with gN Cons.prems(2) d have sk: "set_key np N key ?c False = (None, ?N1)"
    by (rule set_key_general(2))
  from Cons.prems(1) have knot: "key \<notin> set ks" and dist: "distinct ks"
    by simp_all
  have ih: "add_loop np ?N1 B ks
       = (None, ?N1\<lparr>attrs := (\<lambda>k. if k \<in> set ks then joined ?N1 B k else attrs ?N1 k)\<rparr>)"
  proof (rule Cons.IH [OF dist])
    show "dtypes ?N1 = Some dt"
      using Cons.prems(2) by simp
    show "\<forall>k \<in> set ks. k \<notin> set (base_attrs ?N1) \<and> k \<notin> set (base_attrs B)
         \<and> (\<exists>a b. attrs ?N1 k = Some a \<and> attrs B k = Some b
                 \<and> dt k = Some (dtype a) \<and> dtype b = dtype a)"
      using Cons.prems(3) knot by auto
  qed
  have eq: "(\<lambda>k. if k \<in> set ks then joined ?N1 B k else attrs ?N1 k)
      = (\<lambda>k. if k \<in> set (key # ks) then joined N B k else attrs N k)"
    using knot a b by (auto simp: fun_eq_iff joined_def)
  from gN gB cat sk ih eq show ?case
    by simp
qed

lemma convert_id: "\<forall>x \<in> set xs. f x = Inr x \<Longrightarrow> convert f xs = Inr xs"
  by (induction xs) simp_all

lemma np_array_arange:
  "du = np_int64 \<or> (\<forall>i. conv np du (VInt i) = Inr (VInt i))
     \<Longrightarrow> np_array np (np_arange n) du
           = Inr \<lparr>dtype = du, elems = map (\<lambda>i. VInt (int i)) [0..<nat n], owndata = True\<rparr>"
  by (auto simp: np_array_def np_arange_def convert_id)

text \<open>
  Claim C1. Let \<open>A\<close> and \<open>B\<close> have the same schema: for every key of \<open>A.keys()\<close>
  (these keys are pairwise different and include \<open>'uid'\<close>) both hold an array of their
  \<open>pop_size\<close> elements of the dtype \<open>A._dtypes\<close> declares, and the dtype declared
  for \<open>'uid'\<close> holds integers unchanged. Then \<open>len(A)\<close> and \<open>len(B)\<close> are the two
  \<open>pop_size\<close>, and \<open>A + B\<close> returns a store \<open>C\<close> with
  \<open>pop_size = len(A) + len(B)\<close>, whose \<open>uid\<close> array is \<open>0, 1, ..., len(A)+len(B)-1\<close>
  and whose every other array is the array of \<open>A\<close> followed by the array of \<open>B\<close>.
\<close>

theorem add_concatenates:
  assumes dt: "dtypes A = Some dt"
    and cA: "conforms dt (keys A) A" and cB: "conforms dt (keys A) B"
    and dist: "distinct (keys A)" and uid: "''uid'' \<in> set (keys A)"
    and du: "dt ''uid'' = Some du"
    and ints: "du = np_int64 \<or> (\<forall>i. conv np du (VInt i) = Inr (VInt i))"
  shows "\<exists>C. add np A B = Inr C
        \<and> len A = Inr (pop_size A) \<and> len B = Inr (pop_size B)
        \<and> pop_size C = pop_size A + pop_size B
        \<and> (\<exists>u. getitem C ''uid'' = Inr u \<and> dtype u = du
               \<and> elems u = map (\<lambda>i. VInt (int i)) [0..<nat (pop_size A + pop_size B)])
        \<and> (\<forall>key \<in> set (keys A). key \<noteq> ''uid'' \<longrightarrow>
              (\<exists>a b. getitem A key = Inr a \<and> getitem B key = Inr b
                 \<and> getitem C key
                     = Inr \<lparr>dtype = dtype a, elems = elems a @ elems b, owndata = True\<rparr>))"
proof -
  let ?n = "pop_size A + pop_size B"
  let ?D = "dcp A"
  let ?J = "\<lambda>k. if k \<in> set (keys A) then joined A B k else map_option copy_array (attrs A k)"
  let ?N1 = "?D\<lparr>attrs := ?J\<rparr>"
  let ?N2 = "?N1\<lparr>pop_size := ?n\<rparr>"
  let ?u = "\<lparr>dtype = du, elems = map (\<lambda>i. VInt (int i)) [0..<nat ?n], owndata = True\<rparr>"
  let ?N3 = "?N2\<lparr>attrs := (attrs ?N2)(''uid'' \<mapsto> ?u)\<rparr>"
  have both: "\<forall>key \<in> set (keys A). key \<notin> set (base_attrs A) \<and> key \<notin> set (base_attrs B)
         \<and> (\<exists>a b. attrs A key = Some a \<and> attrs B key = Some b
                 \<and> dt key = Some (dtype a) \<and> dtype b = dtype a
                 \<and> int (length (elems a)) = pop_size A
                 \<and> int (length (elems b)) = pop_size B)"
    using cA cB by (fastforce simp: conforms_iff)
  with uid have nn: "0 \<le> pop_size A" "0 \<le> pop_size B"
    by fastforce+
  then have lens: "len A = Inr (pop_size A)" "len B = Inr (pop_size B)"
    by (simp_all add: len_nonneg)
  from both
  have pre: "\<forall>key \<in> set (keys A). key \<notin> set (base_attrs ?D) \<and> key \<notin> set (base_attrs B)
         \<and> (\<exists>a b. attrs ?D key = Some a \<and> attrs B key = Some b
                 \<and> dt key = Some (dtype a) \<and> dtype b = dtype a)"
    by fastforce
  from dt have dD: "dtypes ?D = Some dt"
    by simp
  from dist dD pre
  have "add_loop np ?D B (keys A)
       = (None, ?D\<lparr>attrs := (\<lambda>k. if k \<in> set (keys A) then joined ?D B k else attrs ?D k)\<rparr>)"
    by (rule add_loop_result)
  moreover
  have "(\<lambda>k. if k \<in> set (keys A) then joined ?D B k else attrs ?D k) = ?J"
    by (simp add: fun_eq_iff joined_dcp)
  ultimately have loop: "add_loop np ?D B (keys A) = (None, ?N1)"
    by simp
  have J: "\<forall>key \<in> set (keys A). \<exists>a b. attrs A key = Some a \<and> attrs B key = Some b
      \<and> joined A B key = Some \<lparr>dtype = dtype a, elems = elems a @ elems b, owndata = True\<rparr>
      \<and> int (length (elems a @ elems b)) = ?n \<and> dt key = Some (dtype a)"
    using both by (fastforce simp: joined_def)
  have "valid_people ?N2"
    unfolding valid_people_iff
  proof (intro ballI conjI)
    fix key assume "key \<in> set (keys ?N2)"
    then have k: "key \<in> set (keys A)" by (simp add: keys_def dcp_def)
    with both show "key \<notin> set (base_attrs ?N2)" by simp
    from J k have "\<exists>c. joined A B key = Some c \<and> int (length (elems c)) = ?n"
      by fastforce
    with k show "case attrs ?N2 key of None \<Rightarrow> False
         | Some a \<Rightarrow> int (length (elems a)) = pop_size ?N2"
      by auto
  qed
  moreover from nn have "0 \<le> pop_size ?N2"
    by simp
  ultimately have val: "validate ?N2 True = (None, ?N2)"
    by (rule validate_strict_ok)
  from nn have len2: "len ?N2 = Inr ?n"
    by (simp add: len_def)
  from J uid have "\<exists>c. joined A B ''uid'' = Some c \<and> int (length (elems c)) = ?n"
    by fastforce
  then obtain cu where ju: "joined A B ''uid'' = Some cu"
    and lu: "int (length (elems cu)) = ?n"
    by blast
  from both uid have nbu: "''uid'' \<notin> set (base_attrs A)" by blast
  have gu: "getitem ?N2 ''uid'' = Inr cu"
    using ju nbu uid by (intro getitem_Inr_I) simp_all
  have dt2: "dtypes ?N2 = Some dt"
    using dt by simp
  have arr: "np_array np (np_arange ?n) du = Inr ?u"
    using ints by (rule np_array_arange)
  have len: "length (elems ?u) = length (elems cu)"
    using lu by simp
  have setu: "set_key np ?N2 ''uid'' (np_arange ?n) True = (None, ?N3)"
    using gu dt2 du arr len by (rule set_key_general(3))
  have "pop_size ?N1 = pop_size A"
    by simp
  with loop val len2 setu have res: "add np A B = Inr ?N3"
    by (simp add: add_def)
  have 1: "pop_size ?N3 = pop_size A + pop_size B"
    by simp
  have 2: "getitem ?N3 ''uid'' = Inr ?u"
    using nbu by (intro getitem_Inr_I) simp_all
  have 4: "\<forall>key \<in> set (keys A). key \<noteq> ''uid'' \<longrightarrow>
              (\<exists>a b. getitem A key = Inr a \<and> getitem B key = Inr b
                 \<and> getitem ?N3 key
                     = Inr \<lparr>dtype = dtype a, elems = elems a @ elems b, owndata = True\<rparr>)"
  proof (intro ballI impI)
    fix key assume k: "key \<in> set (keys A)" and ne: "key \<noteq> ''uid''"
    from both k obtain a b where ab: "attrs A key = Some a" "attrs B key = Some b"
      and nb: "key \<notin> set (base_attrs A)" "key \<notin> set (base_attrs B)"
      by blast
    then have "getitem A key = Inr a" "getitem B key = Inr b"
      by (simp_all add: getitem_Inr_I)
    moreover have "getitem ?N3 key
        = Inr \<lparr>dtype = dtype a, elems = elems a @ elems b, owndata = True\<rparr>"
      using ab nb k ne by (intro getitem_Inr_I) (simp_all add: joined_def)
    ultimately show "\<exists>a b. getitem A key = Inr a \<and> getitem B key = Inr b
                 \<and> getitem ?N3 key
                     = Inr \<lparr>dtype = dtype a, elems = elems a @ elems b, owndata = True\<rparr>"
      by blast
  qed
  have "\<exists>u. getitem ?N3 ''uid'' = Inr u \<and> dtype u = du
               \<and> elems u = map (\<lambda>i. VInt (int i)) [0..<nat (pop_size A + pop_size B)]"
    using 2 by simp
  with res lens 1 4 show ?thesis
    by blast
qed

theorem add_concatenates_witness:
  "dtypes people3 = Some dtypes0 \<and> conforms dtypes0 (keys people3) people3
   \<and> distinct (keys people3) \<and> ''uid'' \<in> set (keys people3)
   \<and> dtypes0 ''uid'' = Some np_int64
   \<and> (\<exists>C. add np0 people3 people3 = Inr C \<and> pop_size C = 6
         \<and> getitem C ''uid''
             = Inr \<lparr>dtype = np_int64, elems = [VInt 0, VInt 1, VInt 2, VInt 3, VInt 4, VInt 5],
                    owndata = True\<rparr>
         \<and> getitem C ''age''
             = Inr \<lparr>dtype = np_float32,
                    elems = [VFloat 30, VFloat 41, VFloat 52, VFloat 30, VFloat 41, VFloat 52],
                    owndata = True\<rparr>)"
proof -
  have h: "dtypes people3 = Some dtypes0" "conforms dtypes0 (keys people3) people3"
    "conforms dtypes0 (keys people3) people3"
    "distinct (keys people3)" "''uid'' \<in> set (keys people3)"
    "dtypes0 ''uid'' = Some np_int64"
    "np_int64 = np_int64 \<or> (\<forall>i. conv np0 np_int64 (VInt i) = Inr (VInt i))"
    by (simp_all only: people3_valid people3_simps(1) simp_thms)
       (simp_all add: people3_simps dtypes0_def)
  from add_concatenates [OF h] obtain C u where C: "add np0 people3 people3 = Inr C"
    "pop_size C = pop_size people3 + pop_size people3"
    "getitem C ''uid'' = Inr u" "dtype u = np_int64"
    "elems u = map (\<lambda>i. VInt (int i)) [0..<nat (pop_size people3 + pop_size people3)]"
    "\<forall>key \<in> set (keys people3). key \<noteq> ''uid'' \<longrightarrow>
       (\<exists>a b. getitem people3 key = Inr a \<and> getitem people3 key = Inr b
          \<and> getitem C key = Inr \<lparr>dtype = dtype a, elems = elems a @ elems b, owndata = True\<rparr>)"
    by blast
  from C(6) have "getitem C ''age''
      = Inr \<lparr>dtype = np_float32,
             elems = [VFloat 30, VFloat 41, VFloat 52, VFloat 30, VFloat 41, VFloat 52],
             owndata = True\<rparr>"
    by (simp add: people3_simps getitem_def age3_def)
  moreover have "owndata u"
    using C(1,3) h by (auto simp: add_def set_key_def getitem_def np_array_def np_arange_def
        setitem_def Let_def split: prod.splits option.splits sum.splits if_splits assigned.splits)
  with C(3,4,5) have "getitem C ''uid''
      = Inr \<lparr>dtype = np_int64, elems = [VInt 0, VInt 1, VInt 2, VInt 3, VInt 4, VInt 5],
             owndata = True\<rparr>"
    by (cases u) (simp add: people3_simps upt_rec)
  moreover from C(2) have "pop_size C = 6"
    by (simp add: people3_simps)
  ultimately show ?thesis
    using h C(1) by blast
qed

section \<open>Properties of \<open>true\<close> and \<open>false\<close>\<close>

lemma nonzero_sorted: "sorted (nonzero a) \<and> distinct (nonzero a)"
proof
  have "sorted (map int [0..<length (elems a)])"
    by (simp add: sorted_map sorted_wrt_iff_nth_less)
  then show "sorted (nonzero a)"
    unfolding nonzero_def by (rule sorted_filter)
  show "distinct (nonzero a)"
    by (simp add: nonzero_def distinct_map inj_on_def)
qed

lemma nonzero_set: "set (nonzero a) = {int i | i. i < length (elems a) \<and> truthy (elems a ! i)}"
  by (auto simp: nonzero_def)

text \<open>\<open>true\<close> returns exactly the indices of the truthy elements, in ascending order.\<close>

lemma true_indices:
  assumes "getitem p key = Inr a"
  shows "\<exists>xs. true p key = Inr xs \<and> sorted xs \<and> distinct xs
           \<and> set xs = {int i | i. i < length (elems a) \<and> truthy (elems a ! i)}"
  using assms nonzero_sorted [of a] nonzero_set [of a]
  by (simp add: true_def)

text \<open>
  \<open>false\<close> returns the complements \<open>-i-1\<close> of those same indices: negative numbers,
  none of them an index of a falsy element.
\<close>

lemma false_complements:
  "getitem p key = Inr a \<Longrightarrow> false p key = Inr (map (\<lambda>i. - i - 1) (nonzero a))"
  by (simp add: false_def invert_def)

lemma false_negative: "false p key = Inr xs \<Longrightarrow> \<forall>i \<in> set xs. i < 0"
  by (auto simp: false_def invert_def nonzero_def split: sum.splits)

text \<open>
  Claim C2 holds for \<open>true\<close> and fails for \<open>false\<close>. On the array
  \<open>[True, False, True]\<close> the only falsy index is 1; \<open>true\<close> returns \<open>[0, 2]\<close> and
  \<open>false\<close> returns \<open>[-1, -3]\<close>, the bitwise complements of what \<open>true\<close> returns.
\<close>

theorem false_returns_complements:
  "getitem people3 ''susceptible'' = Inr susceptible3
   \<and> true people3 ''susceptible'' = Inr [0, 2]
   \<and> false people3 ''susceptible'' = Inr [- 1, - 3]"
  by (simp add: true_def false_def getitem_def people3_simps nonzero_def invert_def susceptible3_def upt_rec)

section \<open>Properties of the contact operations\<close>

text \<open>
  \<open>make_edgelist\<close> starts from an empty \<open>Contacts()\<close> and indexes it with the first
  layer key before anything was stored under that key: with a first person that has at
  least one layer key it raises \<open>KeyError\<close>, and it never returns a layer.
\<close>

lemma make_edgelist_KeyError: "c0 \<noteq> [] \<Longrightarrow> make_edgelist np p (c0 # rest) = Inl KeyError"
  by (cases c0) (simp_all add: make_edgelist_def assign_in_def)

lemma extend_person_unbound: "extend_person None i nc cdict = Inr nc' \<Longrightarrow> nc' = nc"
  by (cases cdict) auto

lemma extend_people_unbound: "extend_people None i nc adj = Inr nc' \<Longrightarrow> nc' = nc"
proof (induction adj arbitrary: i nc)
  case Nil
  then show ?case by simp
next
  case (Cons cdict adj)
  then show ?case
    by (auto split: sum.splits dest: extend_person_unbound)
qed

lemma make_edgelist_no_layers: "make_edgelist np p adj = Inr nc \<Longrightarrow> nc = []"
proof (cases adj)
  case Nil
  then show "make_edgelist np p adj = Inr nc \<Longrightarrow> nc = []"
    by (simp add: make_edgelist_def)
next
  case (Cons c0 rest)
  assume r: "make_edgelist np p adj = Inr nc"
  show "nc = []"
  proof (cases c0)
    case Nil
    with r Cons show ?thesis
      by (auto simp: make_edgelist_def split: sum.splits dest: extend_people_unbound)
  next
    case (Cons kv c0')
    with r \<open>adj = c0 # rest\<close> show ?thesis
      by (simp add: make_edgelist_KeyError)
  qed
qed

text \<open>
  Claim C6 fails on the code. For the three people of the claim, with the key and the
  weight left to their defaults in a store that has the layer \<open>'h'\<close>, \<open>add_contacts\<close>
  raises \<open>KeyError\<close> and the layer \<open>'h'\<close> receives no edge.
\<close>

theorem add_contacts_adjacency_raises:
  "add_contacts np0 fresh_people (ArgList adj0) None None = (Some KeyError, fresh_people)"
  by (simp add: add_contacts_def contact_keys_def fresh_people_def pars0_def normalise_def adj0_def make_edgelist_KeyError)

lemma remove_loop_result:
  assumes "pars p = Some ps" and "par_contacts ps = Some configured"
  shows "contacts p = Some c
    \<Longrightarrow> distinct (filter (\<lambda>k. k \<in> set configured) ks)
    \<Longrightarrow> \<forall>k \<in> set ks. k \<in> set configured \<longrightarrow> k \<in> set (map fst c)
    \<Longrightarrow> remove_loop p ks
        = (None, p\<lparr>contacts :=
                    Some (filter (\<lambda>(k, l). \<not> (k \<in> set ks \<and> k \<in> set configured)) c)\<rparr>)"
  using assms
proof (induction ks arbitrary: p c)
  case Nil
  then show ?case by simp
next
  case (Cons k ks)
  show ?case
  proof (cases "k \<in> set configured")
    case False
    with Cons.prems have d: "distinct (filter (\<lambda>k. k \<in> set configured) ks)"
      and m: "\<forall>k \<in> set ks. k \<in> set configured \<longrightarrow> k \<in> set (map fst c)"
      by auto
    have "filter (\<lambda>(k', l). \<not> (k' \<in> set (k # ks) \<and> k' \<in> set configured)) c
        = filter (\<lambda>(k', l). \<not> (k' \<in> set ks \<and> k' \<in> set configured)) c"
      using False by (intro filter_cong) auto
    with Cons.IH [OF Cons.prems(1) d m Cons.prems(4,5)] False Cons.prems(1,4,5)
    show ?thesis by simp
  next
    case True
    let ?c1 = "AList.delete k c"
    let ?p1 = "p\<lparr>contacts := Some ?c1\<rparr>"
    from True Cons.prems have kin: "k \<in> set (map fst c)"
      and knot: "k \<notin> set ks"
      and d: "distinct (filter (\<lambda>k. k \<in> set configured) ks)"
      by auto
    have m: "\<forall>k' \<in> set ks. k' \<in> set configured \<longrightarrow> k' \<in> set (map fst ?c1)"
    proof (intro ballI impI)
      fix k' assume k': "k' \<in> set ks" "k' \<in> set configured"
      with Cons.prems(3) have "k' \<in> set (map fst c)" by simp
      moreover from k' knot have "k' \<noteq> k" by auto
      ultimately show "k' \<in> set (map fst ?c1)" by (simp add: delete_keys)
    qed
    have f: "filter (\<lambda>(k', l). \<not> (k' \<in> set ks \<and> k' \<in> set configured)) ?c1
        = filter (\<lambda>(k', l). \<not> (k' \<in> set (k # ks) \<and> k' \<in> set configured)) c"
      using True unfolding AList.delete_eq filter_filter by (intro filter_cong) auto
    have "remove_loop ?p1 ks
        = (None, ?p1\<lparr>contacts :=
             Some (filter (\<lambda>(k', l). \<not> (k' \<in> set ks \<and> k' \<in> set configured)) ?c1)\<rparr>)"
      by (rule Cons.IH [OF _ d m]) (simp_all add: Cons.prems)
    with True kin Cons.prems(1,4,5) f show ?thesis by simp
  qed
qed

text \<open>
  Claim C8, as stated, fails: \<open>remove_dynamic_contacts\<close> pops a key only if it is in
  \<open>pars['contacts']\<close>. Here \<open>'c'\<close> is a layer of the store, \<open>pars['contacts']\<close> lists
  only \<open>'h'\<close>, and after the call for \<open>'c'\<close> the layer is still there.
\<close>

theorem remove_dynamic_contacts_counterexample:
  "contacts people_dyn = Some contacts_dyn
   \<and> ''c'' \<in> set (map fst contacts_dyn)
   \<and> remove_dynamic_contacts people_dyn (One ''c'') = (None, people_dyn)"
  by (simp add: remove_dynamic_contacts_def people_dyn_def people3_simps contacts_dyn_def pars0_def)

text \<open>
  Claim C8, amended. \<open>remove_dynamic_contacts\<close> pops exactly the given keys that are
  in \<open>pars['contacts']\<close>: when these are pairwise different and each names a layer of
  the store, the call returns, none of them is a key of the contacts afterwards, and
  every other layer, a given key outside \<open>pars['contacts']\<close> included, is as it was.
\<close>

theorem remove_dynamic_contacts_configured:
  assumes "pars p = Some ps" and "par_contacts ps = Some configured"
    and "contacts p = Some c"
    and "distinct (filter (\<lambda>k. k \<in> set configured) (promotetolist dk))"
    and "\<forall>k \<in> set (promotetolist dk). k \<in> set configured \<longrightarrow> k \<in> set (map fst c)"
  shows "\<exists>c'. remove_dynamic_contacts p dk = (None, p\<lparr>contacts := Some c'\<rparr>)
      \<and> c' = filter (\<lambda>(k, l). \<not> (k \<in> set (promotetolist dk) \<and> k \<in> set configured)) c
      \<and> (\<forall>k \<in> set (promotetolist dk). k \<in> set configured \<longrightarrow> k \<notin> set (map fst c'))
      \<and> (\<forall>k \<in> set (promotetolist dk). k \<notin> set configured \<longrightarrow> map_of c' k = map_of c k)"
proof -
  let ?c' = "filter (\<lambda>(k, l). \<not> (k \<in> set (promotetolist dk) \<and> k \<in> set configured)) c"
  have 1: "remove_dynamic_contacts p dk = (None, p\<lparr>contacts := Some ?c'\<rparr>)"
    unfolding remove_dynamic_contacts_def
    using assms by (rule remove_loop_result)
  have 2: "\<forall>k \<in> set (promotetolist dk). k \<in> set configured \<longrightarrow> k \<notin> set (map fst ?c')"
    by auto
  have 3: "map_of ?c' k = map_of c k" if "k \<notin> set configured" for k
    using that by (induction c) auto
  from 1 2 3 show ?thesis by blast
qed

theorem remove_dynamic_contacts_configured_witness:
  "pars people_dyn = Some pars0 \<and> par_contacts pars0 = Some [''h'']
   \<and> contacts people_dyn = Some contacts_dyn
   \<and> distinct (filter (\<lambda>k. k \<in> set [''h'']) (promotetolist (Many [''c'', ''h''])))
   \<and> ''h'' \<in> set (map fst contacts_dyn)
   \<and> remove_dynamic_contacts people_dyn (Many [''c'', ''h''])
       = (None, people_dyn\<lparr>contacts := Some [(''c'', Layer_init (kl_contacts kl0))]\<rparr>)"
proof -
  have h: "pars people_dyn = Some pars0" "par_contacts pars0 = Some [''h'']"
    "contacts people_dyn = Some contacts_dyn"
    "distinct (filter (\<lambda>k. k \<in> set [''h'']) (promotetolist (Many [''c'', ''h''])))"
    "\<forall>k \<in> set (promotetolist (Many [''c'', ''h''])). k \<in> set [''h'']
        \<longrightarrow> k \<in> set (map fst contacts_dyn)"
    by (simp_all add: people_dyn_def people3_simps pars0_def contacts_dyn_def)
  from remove_dynamic_contacts_configured [OF h]
  have "remove_dynamic_contacts people_dyn (Many [''c'', ''h''])
       = (None, people_dyn\<lparr>contacts := Some [(''c'', Layer_init (kl_contacts kl0))]\<rparr>)"
    by (simp add: contacts_dyn_def)
  with h show ?thesis by (simp add: contacts_dyn_def)
qed

section \<open>Properties of \<open>__add__\<close> on the heap\<close>

text \<open>
  What \<open>__add__\<close> writes: every step writes at a new address or at the address of
  \<open>newpeople\<close>, itself new.
\<close>

lemma agree_refl: "agree n h h"
  by (simp add: agree_def)

lemma agree_trans: "agree n h h1 \<Longrightarrow> agree n h1 h2 \<Longrightarrow> agree n h h2"
  by (simp add: agree_def)

lemma new_array_frame:
  assumes "new_array h a = (h', r)"
  shows "r = next_ref h" and "next_ref h' = Suc (next_ref h)"
    and "n \<le> next_ref h \<Longrightarrow> agree n h h'"
    and "objects h' = objects h"
    and "arrays h' r = a"
  using assms by (auto simp: new_array_def agree_def)

lemma deepcopy_frame:
  assumes "deepcopy h self = (h', new)"
  shows "new = 2 * next_ref h" and "next_ref h' = Suc (2 * next_ref h)"
    and "agree (next_ref h) h h'"
    and "fresh_attrs (next_ref h) h' new"
  using assms by (auto simp: deepcopy_def Let_def agree_def fresh_attrs_def)

lemma h_set_frame:
  assumes "h_set np h self key v die = (e, h')" and "n \<le> self" and "n \<le> next_ref h"
  shows "agree n h h'" and "next_ref h \<le> next_ref h'"
    and "fresh_attrs n h self \<Longrightarrow> fresh_attrs n h' self"
  using assms
  by (auto simp: h_set_def new_array_def agree_def fresh_attrs_def setitem_def
           split: sum.splits option.splits if_splits prod.splits assigned.splits)

lemma h_validate_loop_strict: "h_validate_loop h self True n ks = (e, h') \<Longrightarrow> h' = h"
  by (induction ks) (auto split: sum.splits if_splits)

lemma h_validate_strict: "h_validate h self True = (e, h') \<Longrightarrow> h' = h"
  by (auto simp: h_validate_def h_validate_loop_strict split: sum.splits)

lemma h_add_loop_frame:
  "h_add_loop np h new people2 ks = (e, h') \<Longrightarrow> n \<le> new \<Longrightarrow> n \<le> next_ref h
     \<Longrightarrow> agree n h h' \<and> next_ref h \<le> next_ref h'
         \<and> (fresh_attrs n h new \<longrightarrow> fresh_attrs n h' new)"
proof (induction ks arbitrary: h)
  case Nil
  then show ?case by (simp add: agree_refl)
next
  case (Cons key ks)
  show ?case
  proof (cases "getitem (objects h new) key")
    case (Inl x)
    with Cons.prems show ?thesis by (simp add: agree_refl)
  next
    case a: (Inr a)
    show ?thesis
    proof (cases "getitem (objects h people2) key")
      case (Inl x)
      with a Cons.prems show ?thesis by (simp add: agree_refl)
    next
      case b: (Inr b)
      show ?thesis
      proof (cases "np_concatenate np (arrays h a) (arrays h b)")
        case (Inl x)
        with a b Cons.prems show ?thesis by (simp add: agree_refl)
      next
        case ab: (Inr ab)
        obtain h1 c where na: "new_array h ab = (h1, c)"
          by (cases "new_array h ab")
        obtain e2 h2 where hs: "h_set np h1 new key c False = (e2, h2)"
          by (cases "h_set np h1 new key c False")
        have n1: "n \<le> next_ref h1" and ag1: "agree n h h1" and o1: "objects h1 = objects h"
          using new_array_frame [OF na] Cons.prems(3) by simp_all
        have ag2: "agree n h1 h2" and n2: "next_ref h1 \<le> next_ref h2"
          and f2: "fresh_attrs n h1 new \<Longrightarrow> fresh_attrs n h2 new"
          using h_set_frame [OF hs Cons.prems(2) n1] by simp_all
        have f1: "fresh_attrs n h new \<Longrightarrow> fresh_attrs n h1 new"
          by (simp add: fresh_attrs_def o1)
        have le: "next_ref h \<le> next_ref h2"
          using new_array_frame(2) [OF na] n2 by simp
        show ?thesis
        proof (cases e2)
          case None
          with Cons.prems(1) a b ab na hs have "h_add_loop np h2 new people2 ks = (e, h')"
            by simp
          from Cons.IH [OF this Cons.prems(2)] n1 n2
          have "agree n h2 h' \<and> next_ref h2 \<le> next_ref h'
              \<and> (fresh_attrs n h2 new \<longrightarrow> fresh_attrs n h' new)"
            by simp
          with ag1 ag2 le f1 f2 show ?thesis
            by (auto intro: agree_trans)
        next
          case (Some x)
          with Cons.prems(1) a b ab na hs have "h' = h2"
            by simp
          with ag1 ag2 le f1 f2 show ?thesis
            by (auto intro: agree_trans)
        qed
      qed
    qed
  qed
qed

lemma h_add_frame:
  assumes "h_add np h self people2 = (e, h', new)"
  shows "agree (next_ref h) h h' \<and> next_ref h \<le> new \<and> fresh_attrs (next_ref h) h' new"
proof -
  let ?n = "next_ref h"
  obtain h0 new0 where dc: "deepcopy h self = (h0, new0)"
    by (cases "deepcopy h self")
  note d = deepcopy_frame [OF dc]
  have new0: "?n \<le> new0" and n0: "?n \<le> next_ref h0"
    using d(1,2) by simp_all
  obtain e1 h1 where lp: "h_add_loop np h0 new0 people2 (keys (objects h0 self)) = (e1, h1)"
    by (cases "h_add_loop np h0 new0 people2 (keys (objects h0 self))")
  from h_add_loop_frame [OF lp new0 n0] d(4)
  have l: "agree ?n h0 h1" "next_ref h0 \<le> next_ref h1" "fresh_attrs ?n h1 new0"
    by simp_all
  show ?thesis
  proof (cases e1)
    case (Some x)
    with assms dc lp have "h' = h1" "new = new0"
      by (simp_all add: h_add_def)
    with d(3) l new0 show ?thesis
      by (auto intro: agree_trans)
  next
    case None
    let ?h2 = "h1\<lparr>objects := (objects h1)
                   (new0 := (objects h1 new0)
                      \<lparr>pop_size := pop_size (objects h1 new0) + pop_size (objects h1 people2)\<rparr>)\<rparr>"
    have a2: "agree ?n h1 ?h2" and f2: "fresh_attrs ?n ?h2 new0" and n2: "?n \<le> next_ref ?h2"
      using new0 l n0 by (simp_all add: agree_def fresh_attrs_def)
    obtain e3 h3 where v: "h_validate ?h2 new0 True = (e3, h3)"
      by (cases "h_validate ?h2 new0 True")
    then have h3: "h3 = ?h2"
      by (rule h_validate_strict)
    show ?thesis
    proof (cases e3)
      case (Some x)
      with assms dc lp None v have "h' = h3" "new = new0"
        by (simp_all add: h_add_def Let_def)
      moreover have "agree ?n h h3"
      proof -
        have "agree ?n h h1" using d(3) l(1) by (rule agree_trans)
        then show ?thesis using a2 unfolding h3 by (rule agree_trans)
      qed
      ultimately show ?thesis
        using h3 f2 new0 by simp
    next
      case e3: None
      have ag3: "agree ?n h h3"
      proof -
        have "agree ?n h h1" using d(3) l(1) by (rule agree_trans)
        then show ?thesis using a2 unfolding h3 by (rule agree_trans)
      qed
      show ?thesis
      proof (cases "len (objects h3 new0)")
        case (Inl x)
        with assms dc lp None v e3 have "h' = h3" "new = new0"
          by (simp_all add: h_add_def Let_def)
        with ag3 h3 f2 new0 show ?thesis
          by simp
      next
        case m: (Inr m)
        obtain h4 r where na: "new_array h3 (np_arange m) = (h4, r)"
          by (cases "new_array h3 (np_arange m :: 'a ndarray)")
        obtain e5 h5 where hs: "h_set np h4 new0 ''uid'' r True = (e5, h5)"
          by (cases "h_set np h4 new0 ''uid'' r True")
        have a4: "agree ?n h3 h4" and n4: "?n \<le> next_ref h4" and f4: "fresh_attrs ?n h4 new0"
          using new_array_frame [OF na] n2 f2 h3 by (simp_all add: fresh_attrs_def)
        have a5: "agree ?n h4 h5" and f5: "fresh_attrs ?n h5 new0"
          using h_set_frame [OF hs new0 n4] f4 by simp_all
        from assms dc lp None v e3 m na hs have "h' = h5" "new = new0"
          by (simp_all add: h_add_def Let_def)
        moreover have "agree ?n h h5"
        proof -
          have "agree ?n h h4" using ag3 a4 by (rule agree_trans)
          then show ?thesis using a5 by (rule agree_trans)
        qed
        ultimately show ?thesis
          using f5 new0 by simp
      qed
    qed
  qed
qed

text \<open>
  What \<open>__add__\<close> computes: on allocated stores it raises what the operation on
  values raises, and the store it returns, read through the heap, is the store the
  operation on values returns.
\<close>

lemma view_simps [simp]:
  "pop_size (view h r) = pop_size (objects h r)"
  "dtypes (view h r) = dtypes (objects h r)"
  "lock (view h r) = lock (objects h r)"
  "keys (view h r) = keys (objects h r)"
  "len (view h r) = len (objects h r)"
  "base_attrs (view h r) = base_attrs (objects h r)"
  "attrs (view h r) k = map_option (arrays h) (attrs (objects h r) k)"
  "contacts (view h r) = contacts (objects h r)"
  by (simp_all add: view_def keys_def len_def base_attrs_def)

lemma getitem_view:
  "getitem (view h r) key
     = (case getitem (objects h r) key of Inl e \<Rightarrow> Inl e | Inr a \<Rightarrow> Inr (arrays h a))"
  by (simp add: getitem_def split: option.splits)

lemma view_cong:
  assumes "objects h' p = objects h p"
    and "\<forall>k r. attrs (objects h p) k = Some r \<longrightarrow> arrays h' r = arrays h r"
  shows "view h' p = view h p"
proof -
  have "map_option (arrays h') (attrs (objects h p) k) = map_option (arrays h) (attrs (objects h p) k)" for k
    using assms(2) by (cases "attrs (objects h p) k") auto
  with assms(1) show ?thesis
    by (simp add: view_def)
qed

lemma view_below:
  assumes "allocated h p" and "objects h' p = objects h p"
    and "\<forall>r < next_ref h. arrays h' r = arrays h r"
  shows "view h' p = view h p"
proof (rule view_cong [OF assms(2)], intro allI impI)
  fix k r
  assume "attrs (objects h p) k = Some r"
  with assms(1) have "r < next_ref h"
    by (simp add: allocated_def)
  with assms(3) show "arrays h' r = arrays h r"
    by simp
qed

lemma view_agree:
  assumes "agree (next_ref h) h h'" and "allocated h p"
  shows "view h' p = view h p"
proof -
  from assms have o: "objects h' p = objects h p"
    by (simp add: agree_def allocated_def)
  have "map_option (arrays h') (attrs (objects h p) k) = map_option (arrays h) (attrs (objects h p) k)" for k
    using assms by (cases "attrs (objects h p) k") (auto simp: agree_def allocated_def)
  with o show ?thesis
    by (simp add: view_def)
qed

lemma allocated_mono:
  "allocated h p \<Longrightarrow> objects h' p = objects h p \<Longrightarrow> next_ref h \<le> next_ref h'
     \<Longrightarrow> allocated h' p"
  by (fastforce simp: allocated_def)

lemma allocated_bind:
  assumes "allocated h p" and "c < n'" and "next_ref h \<le> n'"
  shows "allocated (h\<lparr>objects := (objects h)(p := (objects h p)\<lparr>attrs := (attrs (objects h p))(key \<mapsto> c)\<rparr>),
                      next_ref := n'\<rparr>) p"
  using assms by (fastforce simp: allocated_def)

lemma h_set_sim:
  assumes al: "allocated h self" and v: "v < next_ref h"
  shows "\<exists>h'. h_set np h self key v die
            = (fst (set_key np (view h self) key (arrays h v) die), h')
         \<and> view h' self = snd (set_key np (view h self) key (arrays h v) die)
         \<and> allocated h' self
         \<and> next_ref h \<le> next_ref h'
         \<and> (\<forall>r < next_ref h. arrays h' r = arrays h r)
         \<and> (\<forall>p. p \<noteq> self \<longrightarrow> objects h' p = objects h p)"
proof (cases "getitem (objects h self) key")
  case (Inl e)
  then show ?thesis
    using al by (simp add: h_set_def set_key_def getitem_view)
next
  case cur: (Inr current)
  then have curlt: "current < next_ref h" and nb: "key \<notin> set (base_attrs (objects h self))"
    and at: "attrs (objects h self) key = Some current"
    using al by (auto simp: getitem_Inr_iff allocated_def)
  show ?thesis
  proof (cases "dtypes (objects h self)")
    case None
    with cur show ?thesis
      using al by (simp add: h_set_def set_key_def getitem_view)
  next
    case dt: (Some dt)
    show ?thesis
    proof (cases "dt key")
      case None
      with cur dt show ?thesis
        using al by (simp add: h_set_def set_key_def getitem_view)
    next
      case d: (Some d)
      show ?thesis
      proof (cases "np_array np (arrays h v) d")
        case (Inl e)
        with cur dt d show ?thesis
          using al by (simp add: h_set_def set_key_def getitem_view)
      next
        case cv: (Inr a')
        let ?h1 = "h\<lparr>arrays := (arrays h)(next_ref h := a'), next_ref := Suc (next_ref h)\<rparr>"
        have na: "new_array h a' = (?h1, next_ref h)"
          by (simp add: new_array_def)
        have v1: "view ?h1 self = view h self"
          using al by (intro view_cong) (auto simp: allocated_def)
        have al1: "allocated ?h1 self"
          using al by (rule allocated_mono) simp_all
        show ?thesis
        proof (cases "die \<and> length (elems a') \<noteq> length (elems (arrays h current))")
          case True
          with cur dt d cv na curlt v1 al1 show ?thesis
            by (simp add: h_set_def set_key_def getitem_view)
        next
          case False
          let ?p' = "(objects h self)\<lparr>attrs := (attrs (objects h self))(key \<mapsto> next_ref h)\<rparr>"
          let ?h2 = "?h1\<lparr>objects := (objects ?h1)(self := ?p')\<rparr>"
          have si: "setitem (objects ?h1 self) key (next_ref h) = (None, Typed ?p')"
            using cur by (simp add: setitem_existing)
          have hs: "h_set np h self key v die = (None, ?h2)"
            using cur dt d cv na False si curlt by (simp add: h_set_def)
          have gv: "getitem (view h self) key = Inr (arrays h current)"
            using cur by (simp add: getitem_view)
          have sk: "set_key np (view h self) key (arrays h v) die
              = (None, (view h self)\<lparr>attrs := (attrs (view h self))(key \<mapsto> a')\<rparr>)"
            using gv dt d cv False by (simp add: set_key_def setitem_existing [OF gv])
          have v2: "view ?h2 self = (view h self)\<lparr>attrs := (attrs (view h self))(key \<mapsto> a')\<rparr>"
          proof -
            have "map_option (arrays ?h1) (((attrs (objects h self))(key \<mapsto> next_ref h)) k)
                = ((\<lambda>k. map_option (arrays h) (attrs (objects h self) k))(key \<mapsto> a')) k" for k
              using al by (cases "attrs (objects h self) k") (auto simp: allocated_def)
            then show ?thesis
              by (simp add: view_def fun_eq_iff)
          qed
          have "allocated (h\<lparr>objects := (objects h)(self := ?p'), next_ref := Suc (next_ref h)\<rparr>) self"
            using al by (rule allocated_bind) simp_all
          then have al2: "allocated ?h2 self"
            by (simp add: allocated_def)
          from hs sk v2 al2 show ?thesis
            by simp
        qed
      qed
    qed
  qed
qed

lemma h_add_loop_sim:
  "allocated h new \<Longrightarrow> allocated h people2 \<Longrightarrow> new \<noteq> people2
   \<Longrightarrow> \<exists>h'. h_add_loop np h new people2 ks
            = (fst (add_loop np (view h new) (view h people2) ks), h')
         \<and> view h' new = snd (add_loop np (view h new) (view h people2) ks)
         \<and> allocated h' new \<and> allocated h' people2
         \<and> view h' people2 = view h people2
         \<and> objects h' people2 = objects h people2"
proof (induction ks arbitrary: h)
  case Nil
  then show ?case by simp
next
  case (Cons key ks)
  show ?case
  proof (cases "getitem (objects h new) key")
    case (Inl e)
    with Cons.prems show ?thesis by (simp add: getitem_view)
  next
    case a: (Inr a)
    show ?thesis
    proof (cases "getitem (objects h people2) key")
      case (Inl e)
      with a Cons.prems show ?thesis by (simp add: getitem_view)
    next
      case b: (Inr b)
      show ?thesis
      proof (cases "np_concatenate np (arrays h a) (arrays h b)")
      case (Inl e)
      with a b Cons.prems show ?thesis by (simp add: getitem_view)
      next
      case ab: (Inr c0)
      let ?c = "c0"
      let ?h1 = "h\<lparr>arrays := (arrays h)(next_ref h := ?c), next_ref := Suc (next_ref h)\<rparr>"
      have na: "new_array h ?c = (?h1, next_ref h)"
        by (simp add: new_array_def)
      have al1: "allocated ?h1 new" "allocated ?h1 people2"
        using Cons.prems(1,2) by (auto intro: allocated_mono)
      have v1: "view ?h1 new = view h new" "view ?h1 people2 = view h people2"
        using Cons.prems(1,2) by (auto intro!: view_below)
      from h_set_sim [OF al1(1), of "next_ref h" np key False]
      obtain h2 where hs: "h_set np ?h1 new key (next_ref h) False
            = (fst (set_key np (view h new) key ?c False), h2)"
        and v2: "view h2 new = snd (set_key np (view h new) key ?c False)"
        and al2: "allocated h2 new" and n2: "next_ref ?h1 \<le> next_ref h2"
        and ar2: "\<forall>r < next_ref ?h1. arrays h2 r = arrays ?h1 r"
        and ob2: "\<forall>p. p \<noteq> new \<longrightarrow> objects h2 p = objects ?h1 p"
        by (auto simp: v1)
      have o2: "objects h2 people2 = objects h people2"
        using ob2 Cons.prems(3) by simp
      have al2': "allocated h2 people2"
        using al1(2) o2 n2 by (auto intro: allocated_mono)
      have vp2: "view h2 people2 = view h people2"
      proof -
        have "view h2 people2 = view ?h1 people2"
        proof (rule view_below [OF al1(2) _ ar2])
          show "objects h2 people2 = objects ?h1 people2"
            using ob2 Cons.prems(3) by simp
        qed
        with v1 show ?thesis by simp
      qed
      obtain e2 P2 where sk: "set_key np (view h new) key ?c False = (e2, P2)"
        by (cases "set_key np (view h new) key ?c False")
      show ?thesis
      proof (cases e2)
        case (Some x)
        with a b ab na hs sk v2 al2 al2' vp2 o2 show ?thesis
          by (simp add: getitem_view)
      next
        case None
        from Cons.IH [OF al2 al2' Cons.prems(3)]
        obtain h' where ih: "h_add_loop np h2 new people2 ks
              = (fst (add_loop np (view h2 new) (view h2 people2) ks), h')"
          "view h' new = snd (add_loop np (view h2 new) (view h2 people2) ks)"
          "allocated h' new" "allocated h' people2"
          "view h' people2 = view h2 people2" "objects h' people2 = objects h2 people2"
          by blast
        with None a b ab na hs sk v2 vp2 o2 show ?thesis
          by (simp add: getitem_view)
      qed
      qed
    qed
  qed
qed

lemma validate_loop_strict_same: "snd (validate_loop p True n ks) = p"
  by (induction ks) (auto split: sum.splits)

lemma h_validate_loop_sim:
  "h_validate_loop h self True n ks = (fst (validate_loop (view h self) True n ks), h)"
  by (induction ks) (auto simp: getitem_view split: sum.splits)

lemma h_validate_sim:
  "h_validate h self True = (fst (validate (view h self) True), h)"
  "snd (validate (view h self) True) = view h self"
  by (simp_all add: h_validate_def validate_def h_validate_loop_sim validate_loop_strict_same
        split: sum.splits)

lemma deepcopy_parts:
  assumes "deepcopy h self = (h0, new)"
  shows "new = 2 * next_ref h" and "next_ref h0 = Suc (2 * next_ref h)"
    and "arrays h0 r = (if next_ref h \<le> r \<and> r < 2 * next_ref h
                        then copy_array (arrays h (r - next_ref h)) else arrays h r)"
    and "p \<noteq> 2 * next_ref h \<Longrightarrow> objects h0 p = objects h p"
    and "attrs (objects h0 (2 * next_ref h)) k
           = map_option (\<lambda>r. next_ref h + r) (attrs (objects h self) k)"
    and "view h0 (2 * next_ref h)
           = (view h self)\<lparr>contacts := copy_contacts (contacts (view h self)),
               attrs := (\<lambda>k. map_option (arrays h0)
                 (map_option (\<lambda>r. next_ref h + r) (attrs (objects h self) k)))\<rparr>"
  using assms by (auto simp: deepcopy_def Let_def view_def)

lemma deepcopy_sim:
  assumes "allocated h self" and "allocated h people2"
    and "deepcopy h self = (h0, new)"
  shows "view h0 new = dcp (view h self)" and "view h0 people2 = view h people2"
    and "allocated h0 new" and "allocated h0 people2" and "new \<noteq> people2"
    and "objects h0 self = objects h self" and "objects h0 people2 = objects h people2"
proof -
  let ?n = "next_ref h"
  note d = deepcopy_parts [OF assms(3)]
  from assms(1,2) have lt: "self < ?n" "people2 < ?n"
    by (simp_all add: allocated_def)
  then show "new \<noteq> people2" "objects h0 self = objects h self"
    "objects h0 people2 = objects h people2"
    by (simp_all add: d(1,4))
  have "map_option (arrays h0) (map_option (\<lambda>r. ?n + r) (attrs (objects h self) k))
      = map_option copy_array (map_option (arrays h) (attrs (objects h self) k))" for k
  proof (cases "attrs (objects h self) k")
    case None
    then show ?thesis by simp
  next
    case (Some r)
    with assms(1) have "r < ?n" by (simp add: allocated_def)
    with Some show ?thesis by (simp add: d(3))
  qed
  then have "(\<lambda>k. map_option (arrays h0) (map_option (\<lambda>r. ?n + r) (attrs (objects h self) k)))
      = (\<lambda>k. map_option copy_array (attrs (view h self) k))"
    by (simp add: fun_eq_iff)
  then show "view h0 new = dcp (view h self)"
    unfolding d(1) d(6) dcp_def by simp
  show "view h0 people2 = view h people2"
  proof (rule view_below [OF assms(2)])
    show "objects h0 people2 = objects h people2"
      using lt by (simp add: d(4))
    show "\<forall>r < ?n. arrays h0 r = arrays h r"
      by (simp add: d(3))
  qed
  show "allocated h0 new"
    unfolding allocated_def
  proof (intro conjI allI impI)
    show "new < next_ref h0"
      by (simp add: d(1,2))
    fix key r
    assume "attrs (objects h0 new) key = Some r"
    then obtain r0 where "attrs (objects h self) key = Some r0" and r: "r = ?n + r0"
      unfolding d(1) d(5) by auto
    with assms(1) have "r0 < ?n"
      by (simp add: allocated_def)
    with r show "r < next_ref h0"
      by (simp add: d(2))
  qed
  show "allocated h0 people2"
    using assms(2) by (rule allocated_mono) (use lt in \<open>simp_all add: d(2,4)\<close>)
qed

lemma add_unfold:
  assumes "add_loop np (dcp A) B (keys A) = (e1, P1)"
    and "validate (P1\<lparr>pop_size := pop_size P1 + pop_size B\<rparr>) True = (e2, P2)"
  shows "add np A B =
     (case e1 of
        Some e \<Rightarrow> Inl e
      | None \<Rightarrow>
          (case e2 of
             Some e \<Rightarrow> Inl e
           | None \<Rightarrow>
               (case len P2 of
                  Inl e \<Rightarrow> Inl e
                | Inr n \<Rightarrow>
                    (case fst (set_key np P2 ''uid'' (np_arange n) True) of
                       Some e \<Rightarrow> Inl e
                     | None \<Rightarrow> Inr (snd (set_key np P2 ''uid'' (np_arange n) True))))))"
proof (cases "len P2")
  case (Inl e)
  then show ?thesis
    by (simp add: add_def assms split: option.splits)
next
  case (Inr n)
  obtain e3 P3 where "set_key np P2 ''uid'' (np_arange n) True = (e3, P3)"
    by (cases "set_key np P2 ''uid'' (np_arange n) True")
  with Inr show ?thesis
    by (simp add: add_def assms split: option.splits)
qed

lemma h_add_refines:
  assumes al: "allocated h self" "allocated h people2"
  shows "\<exists>h' new. h_add np h self people2
            = ((case add np (view h self) (view h people2) of Inl e \<Rightarrow> Some e | Inr C \<Rightarrow> None),
               h', new)
         \<and> (\<forall>C. add np (view h self) (view h people2) = Inr C \<longrightarrow> view h' new = C)"
proof -
  obtain h0 new where dc: "deepcopy h self = (h0, new)"
    by (cases "deepcopy h self")
  note d = deepcopy_sim [OF al dc]
  let ?ks = "keys (objects h0 self)"
  have ks: "?ks = keys (view h self)"
    by (simp add: d(6))
  obtain e1 P1 where L: "add_loop np (dcp (view h self)) (view h people2) (keys (view h self))
      = (e1, P1)"
    by (cases "add_loop np (dcp (view h self)) (view h people2) (keys (view h self))")
  from h_add_loop_sim [OF d(3,4,5), of np ?ks]
  obtain h1 where lp: "h_add_loop np h0 new people2 ?ks = (e1, h1)"
    and v1: "view h1 new = P1" and al1: "allocated h1 new"
    and o1: "objects h1 people2 = objects h people2"
    unfolding d(1,2) ks d(7) L by auto
  let ?P1' = "P1\<lparr>pop_size := pop_size P1 + pop_size (view h people2)\<rparr>"
  obtain e2 P2 where V: "validate ?P1' True = (e2, P2)"
    by (cases "validate ?P1' True")
  note unfold = add_unfold [OF L V]
  show ?thesis
  proof (cases e1)
    case (Some e)
    then have "add np (view h self) (view h people2) = Inl e"
      by (simp add: unfold)
    with dc lp Some show ?thesis
      by (simp add: h_add_def)
  next
    case None
    let ?h2 = "h1\<lparr>objects := (objects h1)
                   (new := (objects h1 new)
                      \<lparr>pop_size := pop_size (objects h1 new) + pop_size (objects h1 people2)\<rparr>)\<rparr>"
    have v2: "view ?h2 new = ?P1'"
      unfolding v1 [symmetric] by (simp add: view_def o1)
    have al2: "allocated ?h2 new"
      using al1 by (simp add: allocated_def)
    have val: "h_validate ?h2 new True = (e2, ?h2)"
      and vs: "P2 = ?P1'"
      using h_validate_sim [of ?h2 new] V unfolding v2 by simp_all
    show ?thesis
    proof (cases e2)
      case (Some e)
      with None have "add np (view h self) (view h people2) = Inl e"
        by (simp add: unfold)
      with dc lp None val Some show ?thesis
        by (simp add: h_add_def Let_def)
    next
      case vNone: None
      have len2: "len (objects ?h2 new) = len P2"
        unfolding vs using v2 [symmetric] by (simp del: fun_upd_apply)
      show ?thesis
      proof (cases "len P2")
        case (Inl e)
        with None vNone have "add np (view h self) (view h people2) = Inl e"
          by (simp add: unfold)
        moreover from dc lp None val vNone len2 Inl
        have "h_add np h self people2 = (Some e, ?h2, new)"
          by (simp add: h_add_def Let_def del: fun_upd_apply)
        ultimately show ?thesis
          by simp
      next
        case m: (Inr m)
        let ?r = "next_ref ?h2"
        let ?u = "np_arange m :: 'a ndarray"
        let ?h4 = "?h2\<lparr>arrays := (arrays ?h2)(?r := ?u), next_ref := Suc ?r\<rparr>"
        have na: "new_array ?h2 ?u = (?h4, ?r)"
          by (simp add: new_array_def)
        have al4: "allocated ?h4 new"
          using al2 by (rule allocated_mono) simp_all
        have v4: "view ?h4 new = P2"
          unfolding vs v2 [symmetric] using al2 by (rule view_below) simp_all
        let ?S = "set_key np P2 ''uid'' ?u True"
        from h_set_sim [OF al4, of ?r np "''uid''" True]
        obtain h5 where hs: "h_set np ?h4 new ''uid'' ?r True = (fst ?S, h5)"
          and v5: "view h5 new = snd ?S"
          unfolding v4 by auto
        have hadd: "h_add np h self people2 = (fst ?S, h5, new)"
          using dc lp None val vNone len2 m na hs
          by (simp add: h_add_def Let_def del: fun_upd_apply)
        show ?thesis
        proof (cases "fst ?S")
          case (Some e)
          with None vNone m have "add np (view h self) (view h people2) = Inl e"
            by (simp add: unfold)
          with hadd Some show ?thesis
            by simp
        next
          case sNone: None
          with None vNone m have "add np (view h self) (view h people2) = Inr (snd ?S)"
            by (simp add: unfold)
          with hadd sNone v5 show ?thesis
            by simp
        qed
      qed
    qed
  qed
qed

lemma heap0_allocated: "allocated heap0 3"
  by (simp add: allocated_def heap0_def obj3_def)

lemma heap0_view: "view heap0 3 = people3"
  by (simp add: view_def heap0_def obj3_def people3_def fresh_people_def fun_eq_iff)

lemma keys_update:
  "keys (p\<lparr>attrs := x\<rparr>) = keys p" "keys (p\<lparr>pop_size := n\<rparr>) = keys p"
  by (simp_all add: keys_def)

lemma add_people3: "\<exists>C. add np0 people3 people3 = Inr C \<and> pop_size C = 6"
proof -
  let ?P1 = "(dcp people3)\<lparr>attrs := (\<lambda>k. if k \<in> set (keys people3)
                                  then joined (dcp people3) people3 k
                                  else attrs (dcp people3) k)\<rparr>"
  have h: "dtypes (dcp people3) = Some dtypes0"
    "\<forall>key \<in> set (keys people3). key \<notin> set (base_attrs (dcp people3))
         \<and> key \<notin> set (base_attrs people3)
         \<and> (\<exists>a b. attrs (dcp people3) key = Some a \<and> attrs people3 key = Some b
                 \<and> dtypes0 key = Some (dtype a) \<and> dtype b = dtype a)"
    "distinct (keys people3)"
    by (simp_all add: people3_simps dtypes0_def uid3_def age3_def susceptible3_def)
  from h(3,1,2) have L: "add_loop np0 (dcp people3) people3 (keys people3) = (None, ?P1)"
    by (rule add_loop_result)
  let ?P2 = "?P1\<lparr>pop_size := pop_size ?P1 + pop_size people3\<rparr>"
  have P2: "pop_size ?P2 = 6" "keys ?P2 = keys people3" "dtypes ?P2 = Some dtypes0"
    "base_attrs ?P2 = base_attrs people3"
    "attrs ?P2 ''uid''
       = Some \<lparr>dtype = np_int64, elems = elems uid3 @ elems uid3, owndata = True\<rparr>"
    "attrs ?P2 ''age''
       = Some \<lparr>dtype = np_float32, elems = elems age3 @ elems age3, owndata = True\<rparr>"
    "attrs ?P2 ''susceptible''
       = Some \<lparr>dtype = np_bool, elems = elems susceptible3 @ elems susceptible3,
               owndata = True\<rparr>"
    by (simp_all add: keys_update people3_simps joined_def uid3_def age3_def
          susceptible3_def)
  have "valid_people ?P2"
    unfolding valid_people_def P2(1,2,4)
    by (simp add: people3_simps joined_dcp joined_def uid3_def age3_def susceptible3_def)
  then have V: "validate ?P2 True = (None, ?P2)"
    by (rule validate_strict_ok) (simp add: people3_simps)
  have g: "getitem ?P2 ''uid''
      = Inr \<lparr>dtype = np_int64, elems = elems uid3 @ elems uid3, owndata = True\<rparr>"
    using P2(5) by (intro getitem_Inr_I) (simp_all add: people3_simps)
  have a: "np_array np0 (np_arange 6) np_int64 = Inr (np_arange 6)"
    by (simp add: np_array_def np_arange_def)
  have d: "dtypes0 ''uid'' = Some np_int64"
    by (simp add: dtypes0_def)
  have l: "length (elems (np_arange 6 :: real ndarray))
      = length (elems \<lparr>dtype = np_int64, elems = elems uid3 @ elems uid3, owndata = True\<rparr>)"
    by (simp add: np_arange_def uid3_def)
  from g P2(3) d a l
  have "set_key np0 ?P2 ''uid'' (np_arange 6) True
      = (None, ?P2\<lparr>attrs := (attrs ?P2)(''uid'' \<mapsto> np_arange 6)\<rparr>)"
    by (rule set_key_general(3))
  moreover have "len ?P2 = Inr 6"
    by (simp add: len_def people3_simps)
  ultimately show ?thesis
    using add_unfold [OF L V] by (simp add: people3_simps)
qed

text \<open>
  Claim C10. Whatever \<open>A + B\<close> does, it leaves the operands as they were: the store
  objects at \<open>self\<close> and \<open>people2\<close> (which may be the same object), with their
  \<open>pop_size\<close> and the arrays their attributes are bound to, and every array object
  that existed before the call, are unchanged; \<open>newpeople\<close> is a new object, and each
  of its attributes is bound to an array that did not exist before the call.
\<close>

theorem add_leaves_operands_unchanged:
  assumes "h_add np h self people2 = (e, h', newpeople)"
    and "allocated h self" and "allocated h people2"
  shows "view h' self = view h self \<and> view h' people2 = view h people2
       \<and> objects h' self = objects h self \<and> objects h' people2 = objects h people2
       \<and> (\<forall>r < next_ref h. arrays h' r = arrays h r)
       \<and> next_ref h \<le> newpeople
       \<and> (\<forall>key r. attrs (objects h' newpeople) key = Some r \<longrightarrow> next_ref h \<le> r)"
proof -
  from h_add_frame [OF assms(1)]
  have a: "agree (next_ref h) h h'" and n: "next_ref h \<le> newpeople"
    and f: "fresh_attrs (next_ref h) h' newpeople"
    by simp_all
  from a assms(2,3) have "view h' self = view h self" "view h' people2 = view h people2"
    by (simp_all add: view_agree)
  moreover from a assms(2,3) have "objects h' self = objects h self"
    "objects h' people2 = objects h people2"
    by (simp_all add: agree_def allocated_def)
  moreover from a have "\<forall>r < next_ref h. arrays h' r = arrays h r"
    by (simp add: agree_def)
  ultimately show ?thesis
    using n f by (simp add: fresh_attrs_def)
qed

theorem add_leaves_operands_unchanged_witness:
  "allocated heap0 3 \<and> view heap0 3 = people3
   \<and> fst (h_add np0 heap0 3 3) = None
   \<and> view (fst (snd (h_add np0 heap0 3 3))) 3 = people3
   \<and> objects (fst (snd (h_add np0 heap0 3 3))) 3 = obj3
   \<and> next_ref heap0 \<le> snd (snd (h_add np0 heap0 3 3))
   \<and> pop_size (view (fst (snd (h_add np0 heap0 3 3))) (snd (snd (h_add np0 heap0 3 3)))) = 6"
proof -
  obtain e h' new where r: "h_add np0 heap0 3 3 = (e, h', new)"
    by (cases "h_add np0 heap0 3 3") auto
  from add_people3 obtain C where C: "add np0 people3 people3 = Inr C" "pop_size C = 6"
    by blast
  from h_add_refines [OF heap0_allocated heap0_allocated, of np0] r C
  have e: "e = None" and v: "view h' new = C"
    by (simp_all add: heap0_view)
  from add_leaves_operands_unchanged [OF r heap0_allocated heap0_allocated]
  have "view h' 3 = people3" "objects h' 3 = obj3" "next_ref heap0 \<le> new"
    by (simp_all add: heap0_view) (simp add: heap0_def)
  with r e v C(2) heap0_allocated heap0_view show ?thesis
    by simp
qed

end
